theory Spec2Isabelle
  imports Main "HOL-Library.Sublist"
begin

section \<open>Data model of the Repositories view\<close>

text \<open>
  The entities handed to the query builders of \<^verbatim>\<open>src/views/repositoriesView.ts\<close>.
  Only the fields the builders read are kept.
\<close>

record GitBranchReference =
  branch_repoPath :: string
  branch_name :: string
  branch_ref :: string
  branch_remote :: bool

record GitRemote =
  remote_repoPath :: string
  remote_name :: string

record GitContributor =
  contributor_repoPath :: string
  contributor_name :: string
  contributor_email :: "string option"
  contributor_username :: "string option"

record GitStashReference =
  stash_repoPath :: string
  stash_ref :: string

record GitTagReference =
  tag_repoPath :: string
  tag_ref :: string

record GitWorktree =
  worktree_repoPath :: string
  worktree_uri :: string
  worktree_name :: string

text \<open>
  \<^verbatim>\<open>commit: GitCommit | { repoPath: string; ref: string }\<close>: the first alternative is
  the one \<^verbatim>\<open>GitCommit.is\<close> accepts and carries the committer date.
\<close>

datatype commit_arg =
  GitCommit (commit_repoPath: string) (commit_ref: string) (committer_date: string)
| RevisionRef (commit_repoPath: string) (commit_ref: string)

text \<open>
  The node classes imported from \<^verbatim>\<open>./nodes\<close>. Their declarations are not part of the
  sources at hand; a class carries the payload that the builders read from it
  (\<^verbatim>\<open>n.branch\<close> of a \<^verbatim>\<open>BranchNode\<close>, \<^verbatim>\<open>n.remote\<close> of a \<^verbatim>\<open>RemoteNode\<close>), and
  \<open>CommitNode\<close> and \<open>TagNode\<close> stand for the nodes whose \<^verbatim>\<open>commit\<close> and \<^verbatim>\<open>tag\<close>
  properties the matchers test. \<^verbatim>\<open>instanceof\<close> is a test of the constructor.
\<close>

datatype node_class =
  RepositoriesNode
| RepositoryNode
| BranchesNode
| BranchNode GitBranchReference
| BranchOrTagFolderNode
| BranchTrackingStatusNode
| CompareBranchNode
| ContributorsNode
| ContributorNode
| ReflogNode
| RemotesNode
| RemoteNode GitRemote
| StashesNode
| StashNode
| TagsNode
| TagNode GitTagReference
| WorktreesNode
| WorktreeNode
| CommitNode string

text \<open>
  Modelled from the spec: the Node of its data model (the base class is not part of the
  sources at hand). A node of the lazily materialised tree has its id, its class, and
  the outcomes of the successive fetches of its children: the first entry of \<open>pages\<close>
  is what \<^verbatim>\<open>children()\<close> produces, each later entry is what one more "load more"
  adds, and \<open>None\<close> is a fetch on which the data provider raises. A node supports
  pagination as long as entries are left.
\<close>

datatype view_node =
  ViewNode (node_id: string) (node_class: node_class) (pages: "view_node list option list")

datatype provider_failure = ProviderFailure

text \<open>
  A cancellation token as the walk it is handed to observes it:
  \<open>CancelledAfter k\<close> reports \<^verbatim>\<open>isCancellationRequested\<close> as soon as \<open>k\<close> suspension
  points of that walk have completed (\<open>k = 0\<close>: requested before the walk starts).
\<close>

datatype cancellation_token = CancelledAfter nat | NeverCancelled

fun isCancellationRequested :: "cancellation_token option \<Rightarrow> nat \<Rightarrow> bool" where
  "isCancellationRequested None clock = False"
| "isCancellationRequested (Some NeverCancelled) clock = False"
| "isCancellationRequested (Some (CancelledAfter k)) clock = (k \<le> clock)"

text \<open>
  The first argument of \<^verbatim>\<open>findNode\<close>: an id, or a predicate on nodes.
\<close>

datatype matcher = ById string | ByPredicate "view_node \<Rightarrow> bool"

fun matches :: "matcher \<Rightarrow> view_node \<Rightarrow> bool" where
  "matches (ById i) n = (node_id n = i)"
| "matches (ByPredicate P) n = P n"

text \<open>
  The options object of \<^verbatim>\<open>findNode\<close>. A \<^verbatim>\<open>canTraverse\<close> callback yields its verdict
  and, when it awaited \<^verbatim>\<open>n.loadMore({ until: ref })\<close> on the node it was given, that
  \<open>ref\<close>. Every caller in the file passes \<^verbatim>\<open>maxDepth\<close>.
\<close>

record search_options =
  allowPaging :: "bool option"
  maxDepth :: nat
  canTraverse :: "(view_node \<Rightarrow> bool \<times> string option) option"
  token :: "cancellation_token option"

record reveal_options =
  select :: "bool option"
  focus :: "bool option"
  expand :: "(bool + nat) option"

record commit_branches_options =
  commitDate :: "string option"
  remotes :: "bool option"

datatype git_reference =
  BranchRef GitBranchReference
| CommitRef commit_arg
| StashRef GitStashReference
| TagRef GitTagReference

text \<open>
  What the view does that an observer can see, in the order it happens: the call of
  the provider for the branches containing a commit; of a search, the fetch of the
  root's children, the test of a node against the matcher, the evaluation of
  \<^verbatim>\<open>canTraverse\<close> on a node, the \<^verbatim>\<open>loadMore({ until })\<close> a callback awaits, the
  \<^verbatim>\<open>children()\<close> of a node and a request for one more page of them; the progress
  notification, \<^verbatim>\<open>ensureRevealNode\<close> and \<^verbatim>\<open>reveal\<close>. A node of the tree is named
  by its chain: the node first, then its parent, up to the child of the search root.
\<close>

datatype event =
  GetCommitBranches string string "commit_branches_options option"
| GetRootChildren
| Tested "view_node list"
| CanTraverse "view_node list"
| LoadMoreUntil "view_node list" string
| GetChildren "view_node list"
| LoadMore "view_node list"
| WithProgress string
| EnsureRevealNode view_node "reveal_options option"
| Reveal view_node "reveal_options option"

type_synonym find_result = "(provider_failure + view_node option) \<times> event list"

type_synonym find_engine = "matcher \<Rightarrow> search_options \<Rightarrow> find_result"

text \<open>
  The static helpers and the git provider call that the file uses and does not define:
  the id schemes of the node classes, \<^verbatim>\<open>GitBranch.getRemote\<close>,
  \<^verbatim>\<open>GitReference.toString\<close> and \<^verbatim>\<open>container.git.getCommitBranches\<close>. They are
  parameters of everything below.
\<close>

record collaborators =
  RepositoryNode_getId :: "string \<Rightarrow> string"
  BranchesNode_getId :: "string \<Rightarrow> string"
  StashesNode_getId :: "string \<Rightarrow> string"
  TagsNode_getId :: "string \<Rightarrow> string"
  WorktreesNode_getId :: "string \<Rightarrow> string"
  ContributorNode_getId :: "string \<Rightarrow> string \<Rightarrow> string option \<Rightarrow> string option \<Rightarrow> string"
  StashNode_getId :: "string \<Rightarrow> string \<Rightarrow> string"
  WorktreeNode_getId :: "string \<Rightarrow> string \<Rightarrow> string"
  GitBranch_getRemote :: "string \<Rightarrow> string"
  GitReference_toString :: "git_reference \<Rightarrow> string"
  getCommitBranches ::
    "string \<Rightarrow> string \<Rightarrow> commit_branches_options option \<Rightarrow> provider_failure + string list"

section \<open>Query builders\<close>

subsection \<open>findBranch\<close>

definition findBranch_matcher :: "GitBranchReference \<Rightarrow> matcher" where
  "findBranch_matcher branch =
     ByPredicate (\<lambda>n. case node_class n of
        BranchNode b \<Rightarrow> branch_ref b = branch_ref branch
      | _ \<Rightarrow> False)"

definition findBranch_remote_canTraverse ::
  "collaborators \<Rightarrow> GitBranchReference \<Rightarrow> view_node \<Rightarrow> bool \<times> string option" where
  "findBranch_remote_canTraverse env branch n =
     (let repoNodeId = RepositoryNode_getId env (branch_repoPath branch) in
      case node_class n of
        RepositoriesNode \<Rightarrow> (True, None)
      | RemoteNode r \<Rightarrow>
          if \<not> prefix repoNodeId (node_id n) then (False, None)
          else (branch_remote branch \<and> remote_name r = GitBranch_getRemote env (branch_name branch), None)
      | RepositoryNode \<Rightarrow> (prefix repoNodeId (node_id n), None)
      | BranchesNode \<Rightarrow> (prefix repoNodeId (node_id n), None)
      | RemotesNode \<Rightarrow> (prefix repoNodeId (node_id n), None)
      | BranchOrTagFolderNode \<Rightarrow> (prefix repoNodeId (node_id n), None)
      | _ \<Rightarrow> (False, None))"

definition findBranch_local_canTraverse ::
  "collaborators \<Rightarrow> GitBranchReference \<Rightarrow> view_node \<Rightarrow> bool \<times> string option" where
  "findBranch_local_canTraverse env branch n =
     (let repoNodeId = RepositoryNode_getId env (branch_repoPath branch) in
      case node_class n of
        RepositoriesNode \<Rightarrow> (True, None)
      | RepositoryNode \<Rightarrow> (prefix repoNodeId (node_id n), None)
      | BranchesNode \<Rightarrow> (prefix repoNodeId (node_id n), None)
      | BranchOrTagFolderNode \<Rightarrow> (prefix repoNodeId (node_id n), None)
      | _ \<Rightarrow> (False, None))"

definition findBranch_options ::
  "collaborators \<Rightarrow> GitBranchReference \<Rightarrow> cancellation_token option \<Rightarrow> search_options" where
  "findBranch_options env branch tok =
     (if branch_remote branch
      then \<lparr>allowPaging = Some True, maxDepth = 6,
            canTraverse = Some (findBranch_remote_canTraverse env branch), token = tok\<rparr>
      else \<lparr>allowPaging = Some True, maxDepth = 5,
            canTraverse = Some (findBranch_local_canTraverse env branch), token = tok\<rparr>)"

definition findBranch ::
  "find_engine \<Rightarrow> collaborators \<Rightarrow> GitBranchReference \<Rightarrow> cancellation_token option \<Rightarrow> find_result" where
  "findBranch findNode env branch tok =
     findNode (findBranch_matcher branch) (findBranch_options env branch tok)"

subsection \<open>findCommit\<close>

definition findCommit_matcher :: "commit_arg \<Rightarrow> matcher" where
  "findCommit_matcher commit =
     ByPredicate (\<lambda>n. case node_class n of
        CommitNode r \<Rightarrow> r = commit_ref commit
      | _ \<Rightarrow> False)"

text \<open>
  The callback of the search through local branches. A \<^verbatim>\<open>BranchNode\<close> that fails the
  test of its own \<^verbatim>\<open>if\<close> falls through to the last \<^verbatim>\<open>return false\<close>.
\<close>

definition findCommit_local_canTraverse ::
  "collaborators \<Rightarrow> commit_arg \<Rightarrow> string list \<Rightarrow> view_node \<Rightarrow> bool \<times> string option" where
  "findCommit_local_canTraverse env commit branches n =
     (let repoNodeId = RepositoryNode_getId env (commit_repoPath commit) in
      case node_class n of
        RepositoriesNode \<Rightarrow> (True, None)
      | BranchNode b \<Rightarrow>
          if prefix repoNodeId (node_id n) \<and> branch_name b \<in> set branches
          then (True, Some (commit_ref commit))
          else (False, None)
      | RepositoryNode \<Rightarrow> (prefix repoNodeId (node_id n), None)
      | BranchesNode \<Rightarrow> (prefix repoNodeId (node_id n), None)
      | BranchOrTagFolderNode \<Rightarrow> (prefix repoNodeId (node_id n), None)
      | _ \<Rightarrow> (False, None))"

text \<open>\<^verbatim>\<open>b.split('/', 1)[0]\<close>: the part of \<open>b\<close> before its first slash.\<close>

definition split_first :: "string \<Rightarrow> string" where
  "split_first b = takeWhile (\<lambda>c. c \<noteq> CHR ''/'') b"

definition findCommit_remote_canTraverse ::
  "collaborators \<Rightarrow> commit_arg \<Rightarrow> string list \<Rightarrow> view_node \<Rightarrow> bool \<times> string option" where
  "findCommit_remote_canTraverse env commit branches n =
     (let repoNodeId = RepositoryNode_getId env (commit_repoPath commit);
          remotes = map split_first branches in
      case node_class n of
        RepositoriesNode \<Rightarrow> (True, None)
      | RemoteNode r \<Rightarrow> (prefix repoNodeId (node_id n) \<and> remote_name r \<in> set remotes, None)
      | BranchNode b \<Rightarrow> (prefix repoNodeId (node_id n) \<and> branch_name b \<in> set branches, None)
      | RepositoryNode \<Rightarrow> (prefix repoNodeId (node_id n), None)
      | RemotesNode \<Rightarrow> (prefix repoNodeId (node_id n), None)
      | BranchOrTagFolderNode \<Rightarrow> (prefix repoNodeId (node_id n), None)
      | _ \<Rightarrow> (False, None))"

definition findCommit_local_options ::
  "collaborators \<Rightarrow> commit_arg \<Rightarrow> string list \<Rightarrow> cancellation_token option \<Rightarrow> search_options" where
  "findCommit_local_options env commit branches tok =
     \<lparr>allowPaging = Some True, maxDepth = 6,
      canTraverse = Some (findCommit_local_canTraverse env commit branches), token = tok\<rparr>"

definition findCommit_remote_options ::
  "collaborators \<Rightarrow> commit_arg \<Rightarrow> string list \<Rightarrow> cancellation_token option \<Rightarrow> search_options" where
  "findCommit_remote_options env commit branches tok =
     \<lparr>allowPaging = Some True, maxDepth = 8,
      canTraverse = Some (findCommit_remote_canTraverse env commit branches), token = tok\<rparr>"

definition local_query :: "commit_arg \<Rightarrow> commit_branches_options option" where
  "local_query commit =
     (case commit of
        GitCommit p r d \<Rightarrow> Some \<lparr>commitDate = Some d, remotes = None\<rparr>
      | RevisionRef p r \<Rightarrow> None)"

definition remote_query :: "commit_arg \<Rightarrow> commit_branches_options option" where
  "remote_query commit =
     (case commit of
        GitCommit p r d \<Rightarrow> Some \<lparr>commitDate = Some d, remotes = Some True\<rparr>
      | RevisionRef p r \<Rightarrow> Some \<lparr>commitDate = None, remotes = Some True\<rparr>)"

text \<open>
  \<^verbatim>\<open>findCommit\<close> awaits the provider once or twice before it hands over to
  \<^verbatim>\<open>findNode\<close>; a rejected provider call rejects the whole search.
\<close>

definition findCommit ::
  "find_engine \<Rightarrow> collaborators \<Rightarrow> commit_arg \<Rightarrow> cancellation_token option \<Rightarrow> find_result" where
  "findCommit findNode env commit tok =
     (let ask1 = GetCommitBranches (commit_repoPath commit) (commit_ref commit) (local_query commit);
          ask2 = GetCommitBranches (commit_repoPath commit) (commit_ref commit) (remote_query commit)
      in
      case getCommitBranches env (commit_repoPath commit) (commit_ref commit) (local_query commit) of
        Inl failure \<Rightarrow> (Inl failure, [ask1])
      | Inr branches \<Rightarrow>
          if length branches \<noteq> 0 then
            (case findNode (findCommit_matcher commit)
                    (findCommit_local_options env commit branches tok) of
               (r, evs) \<Rightarrow> (r, ask1 # evs))
          else
            (case getCommitBranches env (commit_repoPath commit) (commit_ref commit)
                    (remote_query commit) of
               Inl failure \<Rightarrow> (Inl failure, [ask1, ask2])
             | Inr branches \<Rightarrow>
                 if length branches = 0 then (Inr None, [ask1, ask2])
                 else
                   (case findNode (findCommit_matcher commit)
                           (findCommit_remote_options env commit branches tok) of
                      (r, evs) \<Rightarrow> (r, ask1 # ask2 # evs))))"

subsection \<open>findContributor, findRemote, findStash, findTag, findWorktree\<close>

definition findContributor_canTraverse ::
  "collaborators \<Rightarrow> GitContributor \<Rightarrow> view_node \<Rightarrow> bool \<times> string option" where
  "findContributor_canTraverse env contributor n =
     (let repoNodeId = RepositoryNode_getId env (contributor_repoPath contributor) in
      case node_class n of
        RepositoriesNode \<Rightarrow> (True, None)
      | RepositoryNode \<Rightarrow> (prefix repoNodeId (node_id n), None)
      | ContributorsNode \<Rightarrow> (prefix repoNodeId (node_id n), None)
      | _ \<Rightarrow> (False, None))"

definition findContributor_options ::
  "collaborators \<Rightarrow> GitContributor \<Rightarrow> cancellation_token option \<Rightarrow> search_options" where
  "findContributor_options env contributor tok =
     \<lparr>allowPaging = None, maxDepth = 2,
      canTraverse = Some (findContributor_canTraverse env contributor), token = tok\<rparr>"

definition findContributor ::
  "find_engine \<Rightarrow> collaborators \<Rightarrow> GitContributor \<Rightarrow> cancellation_token option \<Rightarrow> find_result" where
  "findContributor findNode env contributor tok =
     findNode
       (ById (ContributorNode_getId env (contributor_repoPath contributor)
                (contributor_name contributor) (contributor_email contributor)
                (contributor_username contributor)))
       (findContributor_options env contributor tok)"

definition findRemote_matcher :: "GitRemote \<Rightarrow> matcher" where
  "findRemote_matcher remote =
     ByPredicate (\<lambda>n. case node_class n of
        RemoteNode r \<Rightarrow> remote_name r = remote_name remote
      | _ \<Rightarrow> False)"

definition findRemote_canTraverse ::
  "collaborators \<Rightarrow> GitRemote \<Rightarrow> view_node \<Rightarrow> bool \<times> string option" where
  "findRemote_canTraverse env remote n =
     (let repoNodeId = RepositoryNode_getId env (remote_repoPath remote) in
      case node_class n of
        RepositoriesNode \<Rightarrow> (True, None)
      | RepositoryNode \<Rightarrow> (prefix repoNodeId (node_id n), None)
      | RemotesNode \<Rightarrow> (prefix repoNodeId (node_id n), None)
      | _ \<Rightarrow> (False, None))"

definition findRemote_options ::
  "collaborators \<Rightarrow> GitRemote \<Rightarrow> cancellation_token option \<Rightarrow> search_options" where
  "findRemote_options env remote tok =
     \<lparr>allowPaging = Some True, maxDepth = 2,
      canTraverse = Some (findRemote_canTraverse env remote), token = tok\<rparr>"

definition findRemote ::
  "find_engine \<Rightarrow> collaborators \<Rightarrow> GitRemote \<Rightarrow> cancellation_token option \<Rightarrow> find_result" where
  "findRemote findNode env remote tok =
     findNode (findRemote_matcher remote) (findRemote_options env remote tok)"

definition findStash_canTraverse ::
  "collaborators \<Rightarrow> GitStashReference \<Rightarrow> view_node \<Rightarrow> bool \<times> string option" where
  "findStash_canTraverse env stash n =
     (let repoNodeId = RepositoryNode_getId env (stash_repoPath stash) in
      case node_class n of
        RepositoriesNode \<Rightarrow> (True, None)
      | RepositoryNode \<Rightarrow> (prefix repoNodeId (node_id n), None)
      | StashesNode \<Rightarrow> (prefix repoNodeId (node_id n), None)
      | _ \<Rightarrow> (False, None))"

definition findStash_options ::
  "collaborators \<Rightarrow> GitStashReference \<Rightarrow> cancellation_token option \<Rightarrow> search_options" where
  "findStash_options env stash tok =
     \<lparr>allowPaging = None, maxDepth = 3,
      canTraverse = Some (findStash_canTraverse env stash), token = tok\<rparr>"

definition findStash ::
  "find_engine \<Rightarrow> collaborators \<Rightarrow> GitStashReference \<Rightarrow> cancellation_token option \<Rightarrow> find_result" where
  "findStash findNode env stash tok =
     findNode (ById (StashNode_getId env (stash_repoPath stash) (stash_ref stash)))
       (findStash_options env stash tok)"

definition findTag_matcher :: "GitTagReference \<Rightarrow> matcher" where
  "findTag_matcher tag =
     ByPredicate (\<lambda>n. case node_class n of
        TagNode t \<Rightarrow> tag_ref t = tag_ref tag
      | _ \<Rightarrow> False)"

definition findTag_canTraverse ::
  "collaborators \<Rightarrow> GitTagReference \<Rightarrow> view_node \<Rightarrow> bool \<times> string option" where
  "findTag_canTraverse env tag n =
     (let repoNodeId = RepositoryNode_getId env (tag_repoPath tag) in
      case node_class n of
        RepositoriesNode \<Rightarrow> (True, None)
      | RepositoryNode \<Rightarrow> (prefix repoNodeId (node_id n), None)
      | TagsNode \<Rightarrow> (prefix repoNodeId (node_id n), None)
      | BranchOrTagFolderNode \<Rightarrow> (prefix repoNodeId (node_id n), None)
      | _ \<Rightarrow> (False, None))"

definition findTag_options ::
  "collaborators \<Rightarrow> GitTagReference \<Rightarrow> cancellation_token option \<Rightarrow> search_options" where
  "findTag_options env tag tok =
     \<lparr>allowPaging = Some True, maxDepth = 5,
      canTraverse = Some (findTag_canTraverse env tag), token = tok\<rparr>"

definition findTag ::
  "find_engine \<Rightarrow> collaborators \<Rightarrow> GitTagReference \<Rightarrow> cancellation_token option \<Rightarrow> find_result" where
  "findTag findNode env tag tok =
     findNode (findTag_matcher tag) (findTag_options env tag tok)"

definition findWorktree_canTraverse ::
  "collaborators \<Rightarrow> GitWorktree \<Rightarrow> view_node \<Rightarrow> bool \<times> string option" where
  "findWorktree_canTraverse env worktree n =
     (let repoNodeId = RepositoryNode_getId env (worktree_repoPath worktree) in
      case node_class n of
        RepositoriesNode \<Rightarrow> (True, None)
      | RepositoryNode \<Rightarrow> (prefix repoNodeId (node_id n), None)
      | WorktreesNode \<Rightarrow> (prefix repoNodeId (node_id n), None)
      | _ \<Rightarrow> (False, None))"

definition findWorktree_options ::
  "collaborators \<Rightarrow> GitWorktree \<Rightarrow> cancellation_token option \<Rightarrow> search_options" where
  "findWorktree_options env worktree tok =
     \<lparr>allowPaging = None, maxDepth = 2,
      canTraverse = Some (findWorktree_canTraverse env worktree), token = tok\<rparr>"

definition findWorktree ::
  "find_engine \<Rightarrow> collaborators \<Rightarrow> GitWorktree \<Rightarrow> cancellation_token option \<Rightarrow> find_result" where
  "findWorktree findNode env worktree tok =
     findNode (ById (WorktreeNode_getId env (worktree_repoPath worktree) (worktree_uri worktree)))
       (findWorktree_options env worktree tok)"

subsection \<open>The searches of the section reveals\<close>

text \<open>
  \<^verbatim>\<open>revealBranches\<close>, \<^verbatim>\<open>revealStashes\<close>, \<^verbatim>\<open>revealTags\<close> and \<^verbatim>\<open>revealWorktrees\<close>
  each build the same callback and options; \<^verbatim>\<open>revealRepository\<close> admits the root only.
\<close>

definition section_canTraverse ::
  "collaborators \<Rightarrow> string \<Rightarrow> view_node \<Rightarrow> bool \<times> string option" where
  "section_canTraverse env repoPath n =
     (let repoNodeId = RepositoryNode_getId env repoPath in
      case node_class n of
        RepositoriesNode \<Rightarrow> (True, None)
      | RepositoryNode \<Rightarrow> (prefix repoNodeId (node_id n), None)
      | _ \<Rightarrow> (False, None))"

definition section_options :: "collaborators \<Rightarrow> string \<Rightarrow> search_options" where
  "section_options env repoPath =
     \<lparr>allowPaging = None, maxDepth = 2,
      canTraverse = Some (section_canTraverse env repoPath), token = None\<rparr>"

definition revealRepository_canTraverse :: "view_node \<Rightarrow> bool \<times> string option" where
  "revealRepository_canTraverse n =
     (case node_class n of RepositoriesNode \<Rightarrow> (True, None) | _ \<Rightarrow> (False, None))"

definition revealRepository_options :: search_options where
  "revealRepository_options =
     \<lparr>allowPaging = None, maxDepth = 1,
      canTraverse = Some revealRepository_canTraverse, token = None\<rparr>"

section \<open>Reveal operations\<close>

text \<open>
  \<^verbatim>\<open>window.withProgress\<close> puts up the progress notification, hands the callback the
  notification's token and yields what the callback yields.
\<close>

definition withProgress :: "string \<Rightarrow> find_result \<Rightarrow> find_result" where
  "withProgress title body = (fst body, WithProgress title # snd body)"

text \<open>
  The tail of the reveals that go through \<^verbatim>\<open>ensureRevealNode\<close>:
  \<^verbatim>\<open>if (node == null) return undefined; await this.ensureRevealNode(node, options); return node;\<close>
\<close>

definition then_ensureRevealNode :: "reveal_options option \<Rightarrow> find_result \<Rightarrow> find_result" where
  "then_ensureRevealNode options found =
     (case fst found of
        Inl failure \<Rightarrow> (Inl failure, snd found)
      | Inr None \<Rightarrow> (Inr None, snd found)
      | Inr (Some node) \<Rightarrow> (Inr (Some node), snd found @ [EnsureRevealNode node options]))"

text \<open>
  The tail of the others:
  \<^verbatim>\<open>if (node !== undefined) { await this.reveal(node, options); } return node;\<close>
\<close>

definition then_reveal :: "reveal_options option \<Rightarrow> find_result \<Rightarrow> find_result" where
  "then_reveal options found =
     (case fst found of
        Inl failure \<Rightarrow> (Inl failure, snd found)
      | Inr None \<Rightarrow> (Inr None, snd found)
      | Inr (Some node) \<Rightarrow> (Inr (Some node), snd found @ [Reveal node options]))"

definition in_repositories_view :: "string \<Rightarrow> string" where
  "in_repositories_view what = ''Revealing '' @ what @ '' in the Repositories view...''"

definition revealBranch ::
  "find_engine \<Rightarrow> collaborators \<Rightarrow> GitBranchReference \<Rightarrow> reveal_options option \<Rightarrow>
   cancellation_token \<Rightarrow> find_result" where
  "revealBranch findNode env branch options tok =
     withProgress (in_repositories_view (GitReference_toString env (BranchRef branch)))
       (then_ensureRevealNode options (findBranch findNode env branch (Some tok)))"

definition revealBranches ::
  "find_engine \<Rightarrow> collaborators \<Rightarrow> string \<Rightarrow> reveal_options option \<Rightarrow> find_result" where
  "revealBranches findNode env repoPath options =
     then_reveal options
       (findNode (ById (BranchesNode_getId env repoPath)) (section_options env repoPath))"

definition revealCommit ::
  "find_engine \<Rightarrow> collaborators \<Rightarrow> commit_arg \<Rightarrow> reveal_options option \<Rightarrow>
   cancellation_token \<Rightarrow> find_result" where
  "revealCommit findNode env commit options tok =
     withProgress (in_repositories_view (GitReference_toString env (CommitRef commit)))
       (then_ensureRevealNode options (findCommit findNode env commit (Some tok)))"

definition revealContributor ::
  "find_engine \<Rightarrow> collaborators \<Rightarrow> GitContributor \<Rightarrow> reveal_options option \<Rightarrow>
   cancellation_token \<Rightarrow> find_result" where
  "revealContributor findNode env contributor options tok =
     withProgress
       (in_repositories_view (''contributor '' @ [CHR 0x27] @ contributor_name contributor))
       (then_ensureRevealNode options (findContributor findNode env contributor (Some tok)))"

definition revealRemote ::
  "find_engine \<Rightarrow> collaborators \<Rightarrow> GitRemote \<Rightarrow> reveal_options option \<Rightarrow>
   cancellation_token \<Rightarrow> find_result" where
  "revealRemote findNode env remote options tok =
     withProgress
       (''Revealing remote '' @ [CHR 0x27] @ remote_name remote @ [CHR 0x27] @ '' in the side bar...'')
       (then_ensureRevealNode options (findRemote findNode env remote (Some tok)))"

definition revealRepository ::
  "find_engine \<Rightarrow> collaborators \<Rightarrow> string \<Rightarrow> reveal_options option \<Rightarrow> find_result" where
  "revealRepository findNode env repoPath options =
     then_reveal options
       (findNode (ById (RepositoryNode_getId env repoPath)) revealRepository_options)"

definition revealStash ::
  "find_engine \<Rightarrow> collaborators \<Rightarrow> GitStashReference \<Rightarrow> reveal_options option \<Rightarrow>
   cancellation_token \<Rightarrow> find_result" where
  "revealStash findNode env stash options tok =
     withProgress (in_repositories_view (GitReference_toString env (StashRef stash)))
       (then_reveal options (findStash findNode env stash (Some tok)))"

definition revealStashes ::
  "find_engine \<Rightarrow> collaborators \<Rightarrow> string \<Rightarrow> reveal_options option \<Rightarrow> find_result" where
  "revealStashes findNode env repoPath options =
     then_reveal options
       (findNode (ById (StashesNode_getId env repoPath)) (section_options env repoPath))"

definition revealTag ::
  "find_engine \<Rightarrow> collaborators \<Rightarrow> GitTagReference \<Rightarrow> reveal_options option \<Rightarrow>
   cancellation_token \<Rightarrow> find_result" where
  "revealTag findNode env tag options tok =
     withProgress (in_repositories_view (GitReference_toString env (TagRef tag)))
       (then_ensureRevealNode options (findTag findNode env tag (Some tok)))"

definition revealTags ::
  "find_engine \<Rightarrow> collaborators \<Rightarrow> string \<Rightarrow> reveal_options option \<Rightarrow> find_result" where
  "revealTags findNode env repoPath options =
     then_reveal options
       (findNode (ById (TagsNode_getId env repoPath)) (section_options env repoPath))"

definition revealWorktree ::
  "find_engine \<Rightarrow> collaborators \<Rightarrow> GitWorktree \<Rightarrow> reveal_options option \<Rightarrow>
   cancellation_token \<Rightarrow> find_result" where
  "revealWorktree findNode env worktree options tok =
     withProgress
       (''Revealing worktree '' @ [CHR 0x27] @ worktree_name worktree @ [CHR 0x27] @ '' in the side bar...'')
       (then_ensureRevealNode options (findWorktree findNode env worktree (Some tok)))"

definition revealWorktrees ::
  "find_engine \<Rightarrow> collaborators \<Rightarrow> string \<Rightarrow> reveal_options option \<Rightarrow> find_result" where
  "revealWorktrees findNode env repoPath options =
     then_reveal options
       (findNode (ById (WorktreesNode_getId env repoPath)) (section_options env repoPath))"

section \<open>The traversal engine\<close>

text \<open>
  Modelled from the spec: \<^verbatim>\<open>findNode\<close> is inherited from the view's base class, which
  is not part of the sources at hand. What follows is the algorithm of the spec's section
  4.1, step by step, with the suspension points and the token checks of its section 5.
  A search starts on a view in which nothing below the root is materialised yet, so
  every look into the tree index misses and the children of a node are fetched by the
  visit that first needs them. The trees are finite: a node has finitely many pages.
\<close>

text \<open>
  Modelled from the spec: step 5, "if true (or absent)". An absent callback admits every
  node and loads nothing.
\<close>

definition evalCanTraverse :: "search_options \<Rightarrow> view_node \<Rightarrow> bool \<times> string option" where
  "evalCanTraverse opts n = (case canTraverse opts of None \<Rightarrow> (True, None) | Some f \<Rightarrow> f n)"

text \<open>
  Modelled from the spec: what the visit of one node hands back to the walk, the end of
  the search (a provider failure, a match, or "not found" on cancellation) or the
  children to enqueue.
\<close>

datatype outcome = Done "provider_failure + view_node option" | Next "view_node list"

text \<open>
  Modelled from the spec: \<^verbatim>\<open>children()\<close>, the first fetch of a node's children. It
  yields the first page and the pages still to be loaded.
\<close>

fun first_page ::
  "view_node list option list \<Rightarrow>
   provider_failure + view_node list \<times> view_node list option list" where
  "first_page [] = Inr ([], [])"
| "first_page (None # rest) = Inl ProviderFailure"
| "first_page (Some cs # rest) = Inr (cs, rest)"

text \<open>
  Modelled from the spec: the "load more until ref" operation of a branch node, which
  loads page after page until a loaded child is the commit \<open>ref\<close> or no page is left.
\<close>

fun load_until ::
  "string \<Rightarrow> view_node list option list \<Rightarrow>
   provider_failure + view_node list \<times> view_node list option list" where
  "load_until ref [] = Inr ([], [])"
| "load_until ref (None # rest) = Inl ProviderFailure"
| "load_until ref (Some cs # rest) =
     (if \<exists>c \<in> set cs. node_class c = CommitNode ref then Inr (cs, rest)
      else case load_until ref rest of
             Inl failure \<Rightarrow> Inl failure
           | Inr (further, rest') \<Rightarrow> Inr (cs @ further, rest'))"

text \<open>
  Modelled from the spec: the suspension points of its section 5, (a) a fetch of
  children, (b) a pagination request, (c) the branch-containment call. The clock of a
  walk counts the suspension points it has been through.
\<close>

fun suspends :: "event \<Rightarrow> bool" where
  "suspends (GetCommitBranches p r q) = True"
| "suspends GetRootChildren = True"
| "suspends (LoadMoreUntil p r) = True"
| "suspends (GetChildren p) = True"
| "suspends (LoadMore p) = True"
| "suspends e = False"

definition suspensions :: "event list \<Rightarrow> nat" where
  "suspensions evs = length (filter suspends evs)"

text \<open>
  Modelled from the spec: step 6. While \<^verbatim>\<open>allowPaging\<close> is set, the node has a page
  left and none of its materialised children \<open>cs\<close> matches, the engine requests one more
  page and re-evaluates; the token is re-checked at the boundary of every request.
  \<open>p\<close> is the chain of the node whose children these are.
\<close>

fun page_more ::
  "search_options \<Rightarrow> matcher \<Rightarrow> nat \<Rightarrow> view_node list \<Rightarrow> view_node list \<Rightarrow>
   view_node list option list \<Rightarrow> outcome \<times> event list" where
  "page_more opts m clock p cs [] = (Next cs, [])"
| "page_more opts m clock p cs (pg # rest) =
     (if allowPaging opts \<noteq> Some True then (Next cs, [])
      else if \<exists>c \<in> set cs. matches m c then (Next cs, map (\<lambda>c. Tested (c # p)) cs)
      else case pg of
             None \<Rightarrow> (Done (Inl ProviderFailure), map (\<lambda>c. Tested (c # p)) cs @ [LoadMore p])
           | Some further \<Rightarrow>
               if isCancellationRequested (token opts) (Suc clock)
               then (Done (Inr None), map (\<lambda>c. Tested (c # p)) cs @ [LoadMore p])
               else (case page_more opts m (Suc clock) p (cs @ further) rest of
                       (out, evs) \<Rightarrow> (out, map (\<lambda>c. Tested (c # p)) cs @ LoadMore p # evs)))"

text \<open>
  Modelled from the spec: steps 3 to 6 for the node \<open>n\<close> popped from the frontier, whose
  ancestors below the search root are \<open>anc\<close> (nearest first). The depth of \<open>n\<close> is the
  length of its chain: a child of the search root has depth 1. Step 3 tests the
  matcher; step 4 prunes at \<^verbatim>\<open>maxDepth\<close>; step 5 evaluates \<^verbatim>\<open>canTraverse\<close>, whose
  "load more until ref" is a suspension point of its own and materialises the children
  it loads, and otherwise fetches the children; step 6 is \<open>page_more\<close>.
\<close>

definition visit ::
  "search_options \<Rightarrow> matcher \<Rightarrow> nat \<Rightarrow> view_node \<Rightarrow> view_node list \<Rightarrow> outcome \<times> event list" where
  "visit opts m clock n anc =
     (let p = n # anc;
          asked = (case canTraverse opts of None \<Rightarrow> [] | Some f \<Rightarrow> [CanTraverse p])
      in
      if matches m n then (Done (Inr (Some n)), [Tested p])
      else if maxDepth opts \<le> length p then (Next [], [Tested p])
      else
        (case evalCanTraverse opts n of
           (ok, Some ref) \<Rightarrow>
             (case load_until ref (pages n) of
                Inl failure \<Rightarrow> (Done (Inl failure), Tested p # asked @ [LoadMoreUntil p ref])
              | Inr (cs, rest) \<Rightarrow>
                  if isCancellationRequested (token opts) (Suc clock)
                  then (Done (Inr None), Tested p # asked @ [LoadMoreUntil p ref])
                  else if \<not> ok then (Next [], Tested p # asked @ [LoadMoreUntil p ref])
                  else (case page_more opts m (Suc clock) p cs rest of
                          (out, evs) \<Rightarrow> (out, Tested p # asked @ LoadMoreUntil p ref # evs)))
         | (ok, None) \<Rightarrow>
             if \<not> ok then (Next [], Tested p # asked)
             else
               (case first_page (pages n) of
                  Inl failure \<Rightarrow> (Done (Inl failure), Tested p # asked @ [GetChildren p])
                | Inr (cs, rest) \<Rightarrow>
                    if isCancellationRequested (token opts) (Suc clock)
                    then (Done (Inr None), Tested p # asked @ [GetChildren p])
                    else (case page_more opts m (Suc clock) p cs rest of
                            (out, evs) \<Rightarrow> (out, Tested p # asked @ GetChildren p # evs)))))"

subsection \<open>The walk terminates\<close>

fun weight :: "view_node \<Rightarrow> nat" where
  "weight (ViewNode i c ps) =
     Suc (sum_list (map (\<lambda>pg. case pg of None \<Rightarrow> 0 | Some cs \<Rightarrow> sum_list (map weight cs)) ps))"

definition pages_weight :: "view_node list option list \<Rightarrow> nat" where
  "pages_weight ps =
     sum_list (map (\<lambda>pg. case pg of None \<Rightarrow> 0 | Some cs \<Rightarrow> sum_list (map weight cs)) ps)"

lemma first_page_weight:
  "first_page ps = Inr (cs, rest) \<Longrightarrow>
   sum_list (map weight cs) + pages_weight rest \<le> pages_weight ps"
  by (induction ps rule: first_page.induct) (auto simp: pages_weight_def)

lemma load_until_weight:
  "load_until ref ps = Inr (cs, rest) \<Longrightarrow>
   sum_list (map weight cs) + pages_weight rest \<le> pages_weight ps"
proof (induction ref ps arbitrary: cs rest rule: load_until.induct)
  case (3 ref cs0 rest0)
  then show ?case
    by (fastforce simp: pages_weight_def split: if_splits sum.splits prod.splits)
qed (auto simp: pages_weight_def)

lemma page_more_weight:
  "page_more opts m clock p cs ps = (Next cs', evs) \<Longrightarrow>
   sum_list (map weight cs') \<le> sum_list (map weight cs) + pages_weight ps"
proof (induction opts m clock p cs ps arbitrary: cs' evs rule: page_more.induct)
  case (2 opts m clock p cs pg rest)
  then show ?case
    by (fastforce simp: pages_weight_def split: if_splits option.splits prod.splits)
qed (auto simp: pages_weight_def)

lemma weight_pages: "weight n = Suc (pages_weight (pages n))"
  by (cases n) (simp add: pages_weight_def)

lemma visit_weight:
  assumes "visit opts m clock n anc = (Next cs, evs)"
  shows "sum_list (map weight cs) < weight n"
  using assms first_page_weight [of "pages n"] load_until_weight [of _ "pages n"]
    page_more_weight [of opts m "Suc clock" "n # anc"]
  unfolding visit_def Let_def weight_pages
  by (fastforce split: if_splits prod.splits option.splits sum.splits)

text \<open>
  Modelled from the spec: steps 1, 2 and 7. The frontier is a queue of nodes with their
  ancestors; the token is checked when a node is popped; the children a visit hands
  back are enqueued behind the nodes of the current level, so the order is breadth
  first. An empty frontier is "not found".
\<close>

function walk ::
  "search_options \<Rightarrow> matcher \<Rightarrow> nat \<Rightarrow> (view_node \<times> view_node list) list \<Rightarrow> find_result" where
  "walk opts m clock [] = (Inr None, [])"
| "walk opts m clock ((n, anc) # queue) =
     (if isCancellationRequested (token opts) clock then (Inr None, [])
      else case visit opts m clock n anc of
             (Done r, evs) \<Rightarrow> (r, evs)
           | (Next cs, evs) \<Rightarrow>
               (case walk opts m (clock + suspensions evs) (queue @ map (\<lambda>c. (c, n # anc)) cs) of
                  (r, evs') \<Rightarrow> (r, evs @ evs')))"
  by pat_completeness auto
termination
  apply (relation "measure (\<lambda>(opts, m, clock, queue). sum_list (map (\<lambda>e. weight (fst e)) queue))")
   apply simp
  apply simp
  apply (drule sym)
  apply (drule sym)
  apply (auto simp: comp_def dest: visit_weight)
  done

text \<open>
  Modelled from the spec: \<^verbatim>\<open>find(root, matcher, options)\<close>. The frontier is seeded with
  the children of the root, which is never tested itself; fetching them is the first
  suspension point of the walk.
\<close>

definition findNode :: "view_node \<Rightarrow> find_engine" where
  "findNode root m opts =
     (if isCancellationRequested (token opts) 0 then (Inr None, [])
      else case first_page (pages root) of
             Inl failure \<Rightarrow> (Inl failure, [GetRootChildren])
           | Inr (cs, rest) \<Rightarrow>
               (case walk opts m 1 (map (\<lambda>c. (c, [])) cs) of
                  (r, evs) \<Rightarrow> (r, GetRootChildren # evs)))"

section \<open>Reading a trace\<close>

text \<open>
  The chain of the node an event is about; the events of the provider, of the root and
  of the user interface are about no node below the root.
\<close>

fun event_chain :: "event \<Rightarrow> view_node list" where
  "event_chain (Tested p) = p"
| "event_chain (CanTraverse p) = p"
| "event_chain (LoadMoreUntil p r) = p"
| "event_chain (GetChildren p) = p"
| "event_chain (LoadMore p) = p"
| "event_chain e = []"

text \<open>
  The fetches the engine issues on a node of its own accord: \<^verbatim>\<open>children()\<close> and a
  "load more" of step 6. A \<open>LoadMoreUntil\<close> is issued by the callback.
\<close>

fun engine_fetch :: "event \<Rightarrow> bool" where
  "engine_fetch (GetChildren p) = True"
| "engine_fetch (LoadMore p) = True"
| "engine_fetch e = False"

text \<open>
  The pagination requests, of the engine and of a callback.
\<close>

fun page_request :: "event \<Rightarrow> bool" where
  "page_request (LoadMore p) = True"
| "page_request (LoadMoreUntil p r) = True"
| "page_request e = False"

text \<open>
  The nodes on a list of pages, and the logical children of a node: all the nodes its
  pages hold.
\<close>

definition page_nodes :: "view_node list option list \<Rightarrow> view_node list" where
  "page_nodes ps = concat (map (\<lambda>pg. case pg of None \<Rightarrow> [] | Some cs \<Rightarrow> cs) ps)"

definition children :: "view_node \<Rightarrow> view_node list" where
  "children n = page_nodes (pages n)"

text \<open>
  A chain is a path of the tree below \<open>root\<close>: its last node is a child of the root
  and every other node is a child of the next.
\<close>

fun is_path :: "view_node \<Rightarrow> view_node list \<Rightarrow> bool" where
  "is_path root [] = True"
| "is_path root [c] = (c \<in> set (children root))"
| "is_path root (c # a # anc) = (c \<in> set (children a) \<and> is_path root (a # anc))"



text \<open>
  What the walk maintains for every event, given a property \<open>P\<close> of chains that the
  frontier has: the chain of the event has \<open>P\<close>, a fetch the engine issues is on a
  node the callback admits, and a \<open>LoadMoreUntil\<close> is what the callback asked for on
  that node.
\<close>

definition sound_event :: "(view_node list \<Rightarrow> bool) \<Rightarrow> search_options \<Rightarrow> event \<Rightarrow> bool" where
  "sound_event P opts e =
     (P (event_chain e) \<and>
      (engine_fetch e \<longrightarrow> fst (evalCanTraverse opts (hd (event_chain e)))) \<and>
      (\<forall>p r. e = LoadMoreUntil p r \<longrightarrow> snd (evalCanTraverse opts (hd p)) = Some r))"

text \<open>
  Every \<open>CanTraverse p\<close> of a trace comes directly after \<open>Tested p\<close>; \<open>prev\<close> is the
  event before the trace.
\<close>

fun follows :: "event option \<Rightarrow> event list \<Rightarrow> bool" where
  "follows prev [] = True"
| "follows prev (e # evs) =
     ((case e of CanTraverse p \<Rightarrow> prev = Some (Tested p) | _ \<Rightarrow> True) \<and> follows (Some e) evs)"




text \<open>
  The calls of the provider for the branches containing a commit, which a commit search
  awaits before its walk starts.
\<close>

fun provider_call :: "event \<Rightarrow> bool" where
  "provider_call (GetCommitBranches p r q) = True"
| "provider_call e = False"

definition provider_calls :: "event list \<Rightarrow> nat" where
  "provider_calls evs = length (filter provider_call evs)"


section \<open>Concrete instances\<close>

text \<open>
  A workspace with one repository at \<^verbatim>\<open>/w\<close>, id schemes in the style of the view's, and
  a provider that knows of no branch containing any commit; \<open>local_env\<close> and
  \<open>remote_env\<close> differ from it in what the provider answers.
\<close>

definition example_env :: collaborators where
  "example_env =
     \<lparr>RepositoryNode_getId = (\<lambda>p. ''gitlens:repository('' @ p @ '')''),
      BranchesNode_getId = (\<lambda>p. ''gitlens:repository('' @ p @ ''):branches''),
      StashesNode_getId = (\<lambda>p. ''gitlens:repository('' @ p @ ''):stashes''),
      TagsNode_getId = (\<lambda>p. ''gitlens:repository('' @ p @ ''):tags''),
      WorktreesNode_getId = (\<lambda>p. ''gitlens:repository('' @ p @ ''):worktrees''),
      ContributorNode_getId = (\<lambda>p n e u. ''gitlens:repository('' @ p @ ''):contributor('' @ n @ '')''),
      StashNode_getId = (\<lambda>p r. ''gitlens:repository('' @ p @ ''):stash('' @ r @ '')''),
      WorktreeNode_getId = (\<lambda>p u. ''gitlens:repository('' @ p @ ''):worktree('' @ u @ '')''),
      GitBranch_getRemote = split_first,
      GitReference_toString = (\<lambda>r. ''ref''),
      getCommitBranches = (\<lambda>p r q. Inr [])\<rparr>"

definition origin_feature :: GitBranchReference where
  "origin_feature =
     \<lparr>branch_repoPath = ''/w'', branch_name = ''origin/feature'',
      branch_ref = ''origin/feature'', branch_remote = True\<rparr>"

definition local_feature :: GitBranchReference where
  "local_feature =
     \<lparr>branch_repoPath = ''/w'', branch_name = ''feature'',
      branch_ref = ''feature'', branch_remote = False\<rparr>"

definition remote_node :: "string \<Rightarrow> view_node" where
  "remote_node name =
     ViewNode (''gitlens:repository(/w):remote('' @ name @ '')'')
       (RemoteNode \<lparr>remote_repoPath = ''/w'', remote_name = name\<rparr>) []"

definition commit_c1 :: commit_arg where
  "commit_c1 = RevisionRef ''/w'' ''c1''"

definition branch_node :: "string \<Rightarrow> view_node list option list \<Rightarrow> view_node" where
  "branch_node name ps =
     ViewNode (''gitlens:repository(/w):branch('' @ name @ '')'')
       (BranchNode \<lparr>branch_repoPath = ''/w'', branch_name = name, branch_ref = name,
                    branch_remote = False\<rparr>) ps"

definition local_env :: collaborators where
  "local_env = example_env\<lparr>getCommitBranches :=
     (\<lambda>p r q. if q = None then Inr [''main''] else Inr [''origin/main''])\<rparr>"

definition remote_env :: collaborators where
  "remote_env = example_env\<lparr>getCommitBranches :=
     (\<lambda>p r q. if q = None then Inr [] else Inr [''origin/main''])\<rparr>"

definition silent_engine :: find_engine where
  "silent_engine m opts = (Inr None, [])"

definition eager_engine :: find_engine where
  "eager_engine m opts =
     (Inr (Some (ViewNode ''anything'' RepositoryNode [])),
      [GetRootChildren, Tested [ViewNode ''anything'' RepositoryNode []]])"

definition example_contributor :: GitContributor where
  "example_contributor =
     \<lparr>contributor_repoPath = ''/w'', contributor_name = ''Ada'',
      contributor_email = None, contributor_username = None\<rparr>"

definition example_remote :: GitRemote where
  "example_remote = \<lparr>remote_repoPath = ''/w'', remote_name = ''origin''\<rparr>"

definition example_stash :: GitStashReference where
  "example_stash = \<lparr>stash_repoPath = ''/w'', stash_ref = ''stash-0''\<rparr>"

definition example_tag :: GitTagReference where
  "example_tag = \<lparr>tag_repoPath = ''/w'', tag_ref = ''v1''\<rparr>"

definition example_worktree :: GitWorktree where
  "example_worktree =
     \<lparr>worktree_repoPath = ''/w'', worktree_uri = ''file:///w2'', worktree_name = ''w2''\<rparr>"

definition inside_repo :: "node_class \<Rightarrow> view_node" where
  "inside_repo cls = ViewNode ''gitlens:repository(/w):section'' cls []"

definition outside_repo :: "node_class \<Rightarrow> view_node" where
  "outside_repo cls = ViewNode ''gitlens:repository(/elsewhere):section'' cls []"

text \<open>
  The view of that workspace: a second repository beside \<^verbatim>\<open>/w\<close>, and sections of
  \<^verbatim>\<open>/w\<close> whose stashes, tags and commits come in more than one page.
\<close>

definition commit_node :: "string \<Rightarrow> view_node" where
  "commit_node r = ViewNode (''gitlens:repository(/w):commit('' @ r @ '')'') (CommitNode r) []"

definition branches_w :: view_node where
  "branches_w =
     ViewNode ''gitlens:repository(/w):branches'' BranchesNode
       [Some [branch_node ''main'' [Some [commit_node ''c0''], Some [commit_node ''c1'']],
              branch_node ''topic'' [Some [commit_node ''c2'']]]]"

definition stashes_w :: view_node where
  "stashes_w =
     ViewNode ''gitlens:repository(/w):stashes'' StashesNode
       [Some [ViewNode ''gitlens:repository(/w):stash(stash-1)'' StashNode []],
        Some [ViewNode ''gitlens:repository(/w):stash(stash-0)'' StashNode []]]"

definition tags_w :: view_node where
  "tags_w =
     ViewNode ''gitlens:repository(/w):tags'' TagsNode
       [Some [ViewNode ''gitlens:repository(/w):tag(v0)'' (TagNode \<lparr>tag_repoPath = ''/w'', tag_ref = ''v0''\<rparr>) []],
        Some [ViewNode ''gitlens:repository(/w):tag(v1)'' (TagNode \<lparr>tag_repoPath = ''/w'', tag_ref = ''v1''\<rparr>) []]]"

definition worktree_w2 :: view_node where
  "worktree_w2 = ViewNode ''gitlens:repository(/w):worktree(file:///w2)'' WorktreeNode []"

definition worktrees_w :: view_node where
  "worktrees_w = ViewNode ''gitlens:repository(/w):worktrees'' WorktreesNode [Some [worktree_w2]]"

definition repo_w :: view_node where
  "repo_w =
     ViewNode ''gitlens:repository(/w)'' RepositoryNode
       [Some [branches_w, stashes_w, tags_w, worktrees_w]]"

definition worktrees_elsewhere :: view_node where
  "worktrees_elsewhere =
     ViewNode ''gitlens:repository(/elsewhere):worktrees'' WorktreesNode []"

definition repo_elsewhere :: view_node where
  "repo_elsewhere =
     ViewNode ''gitlens:repository(/elsewhere)'' RepositoryNode [Some [worktrees_elsewhere]]"

definition example_tree :: view_node where
  "example_tree = ViewNode ''gitlens:repositories'' RepositoriesNode [Some [repo_elsewhere, repo_w]]"


section \<open>Properties of the query builders\<close>

text \<open>
  Claim C1. \<^verbatim>\<open>findCommit\<close> first asks the provider for the local branches containing
  the commit. If there are any, it hands over to the engine with the callback of the
  local search, which admits a \<^verbatim>\<open>BranchNode\<close> exactly when its id starts with the
  repository node id and its branch name is among them, has awaited
  \<^verbatim>\<open>loadMore({ until: commit.ref })\<close> whenever it admits one, and admits no
  \<^verbatim>\<open>RemoteNode\<close>. Only when there are none does it ask again with \<^verbatim>\<open>remotes: true\<close>,
  and the callback of that search admits the \<^verbatim>\<open>RemoteNode\<close>s whose name is the first
  segment of one of the remote branches, and loads nothing itself.
\<close>

theorem findCommit_scoping:
  fixes env commit
  defines "repoNodeId \<equiv> RepositoryNode_getId env (commit_repoPath commit)"
  defines "ask \<equiv> getCommitBranches env (commit_repoPath commit) (commit_ref commit)"
  defines "asked \<equiv> GetCommitBranches (commit_repoPath commit) (commit_ref commit)"
  shows
    "(ask (local_query commit) = Inr branches \<and> branches \<noteq> [] \<longrightarrow>
        findCommit engine env commit tok =
          (fst (engine (findCommit_matcher commit) (findCommit_local_options env commit branches tok)),
           asked (local_query commit) #
           snd (engine (findCommit_matcher commit) (findCommit_local_options env commit branches tok))) \<and>
        canTraverse (findCommit_local_options env commit branches tok) =
          Some (findCommit_local_canTraverse env commit branches) \<and>
        (\<forall>b. node_class n = BranchNode b \<longrightarrow>
           findCommit_local_canTraverse env commit branches n =
             (if prefix repoNodeId (node_id n) \<and> branch_name b \<in> set branches
              then (True, Some (commit_ref commit)) else (False, None))) \<and>
        (\<forall>r. node_class n = RemoteNode r \<longrightarrow>
           \<not> fst (findCommit_local_canTraverse env commit branches n))) \<and>
     (ask (local_query commit) = Inr [] \<and> ask (remote_query commit) = Inr branches \<and> branches \<noteq> [] \<longrightarrow>
        findCommit engine env commit tok =
          (fst (engine (findCommit_matcher commit) (findCommit_remote_options env commit branches tok)),
           asked (local_query commit) # asked (remote_query commit) #
           snd (engine (findCommit_matcher commit) (findCommit_remote_options env commit branches tok))) \<and>
        canTraverse (findCommit_remote_options env commit branches tok) =
          Some (findCommit_remote_canTraverse env commit branches) \<and>
        (\<forall>r. node_class n = RemoteNode r \<longrightarrow>
           findCommit_remote_canTraverse env commit branches n =
             (prefix repoNodeId (node_id n) \<and> remote_name r \<in> split_first ` set branches, None)) \<and>
        (\<forall>b. node_class n = BranchNode b \<longrightarrow>
           findCommit_remote_canTraverse env commit branches n =
             (prefix repoNodeId (node_id n) \<and> branch_name b \<in> set branches, None))) \<and>
     (\<forall>q. local_query commit = Some q \<longrightarrow> remotes q = None) \<and>
     (\<exists>q. remote_query commit = Some q \<and> remotes q = Some True)"
proof -
  have local_case: "ask (local_query commit) = Inr branches \<Longrightarrow> branches \<noteq> [] \<Longrightarrow>
        findCommit engine env commit tok =
          (fst (engine (findCommit_matcher commit) (findCommit_local_options env commit branches tok)),
           asked (local_query commit) #
           snd (engine (findCommit_matcher commit) (findCommit_local_options env commit branches tok)))"
    by (simp add: findCommit_def Let_def ask_def asked_def split: prod.splits)
  have remote_case: "ask (local_query commit) = Inr [] \<Longrightarrow>
        ask (remote_query commit) = Inr branches \<Longrightarrow> branches \<noteq> [] \<Longrightarrow>
        findCommit engine env commit tok =
          (fst (engine (findCommit_matcher commit) (findCommit_remote_options env commit branches tok)),
           asked (local_query commit) # asked (remote_query commit) #
           snd (engine (findCommit_matcher commit) (findCommit_remote_options env commit branches tok)))"
    by (simp add: findCommit_def Let_def ask_def asked_def split: prod.splits)
  have local_cb: "\<And>b. node_class n = BranchNode b \<Longrightarrow>
           findCommit_local_canTraverse env commit branches n =
             (if prefix repoNodeId (node_id n) \<and> branch_name b \<in> set branches
              then (True, Some (commit_ref commit)) else (False, None))"
    by (simp add: findCommit_local_canTraverse_def Let_def repoNodeId_def)
  have local_remote: "\<And>r. node_class n = RemoteNode r \<Longrightarrow>
           \<not> fst (findCommit_local_canTraverse env commit branches n)"
    by (simp add: findCommit_local_canTraverse_def Let_def)
  have remote_cb: "\<And>r. node_class n = RemoteNode r \<Longrightarrow>
           findCommit_remote_canTraverse env commit branches n =
             (prefix repoNodeId (node_id n) \<and> remote_name r \<in> split_first ` set branches, None)"
    by (simp add: findCommit_remote_canTraverse_def Let_def repoNodeId_def)
  have remote_branch: "\<And>b. node_class n = BranchNode b \<Longrightarrow>
           findCommit_remote_canTraverse env commit branches n =
             (prefix repoNodeId (node_id n) \<and> branch_name b \<in> set branches, None)"
    by (simp add: findCommit_remote_canTraverse_def Let_def repoNodeId_def)
  have q1: "\<forall>q. local_query commit = Some q \<longrightarrow> remotes q = None"
    by (cases commit) (auto simp: local_query_def)
  have q2: "\<exists>q. remote_query commit = Some q \<and> remotes q = Some True"
    by (cases commit) (auto simp: remote_query_def)
  show ?thesis
    using local_case remote_case local_cb local_remote remote_cb remote_branch q1 q2
    by (simp add: findCommit_local_options_def findCommit_remote_options_def)
qed

theorem findCommit_scoping_witness:
  "findCommit silent_engine local_env commit_c1 None =
     (Inr None, [GetCommitBranches ''/w'' ''c1'' None]) \<and>
   findCommit_local_canTraverse local_env commit_c1 [''main''] (branch_node ''main'' []) =
     (True, Some ''c1'') \<and>
   findCommit_local_canTraverse local_env commit_c1 [''main''] (branch_node ''topic'' []) =
     (False, None) \<and>
   \<not> fst (findCommit_local_canTraverse local_env commit_c1 [''main''] (remote_node ''origin'')) \<and>
   findCommit silent_engine remote_env commit_c1 None =
     (Inr None, [GetCommitBranches ''/w'' ''c1'' None,
                 GetCommitBranches ''/w'' ''c1'' (Some \<lparr>commitDate = None, remotes = Some True\<rparr>)]) \<and>
   findCommit_remote_canTraverse remote_env commit_c1 [''origin/main''] (remote_node ''origin'') =
     (True, None) \<and>
   findCommit_remote_canTraverse remote_env commit_c1 [''origin/main''] (remote_node ''upstream'') =
     (False, None)"
proof -
  have a: "getCommitBranches local_env (commit_repoPath commit_c1) (commit_ref commit_c1)
             (local_query commit_c1) = Inr [''main''] \<and> [''main''] \<noteq> []"
    by (simp add: local_env_def commit_c1_def local_query_def)
  have b: "getCommitBranches remote_env (commit_repoPath commit_c1) (commit_ref commit_c1)
             (local_query commit_c1) = Inr [] \<and>
           getCommitBranches remote_env (commit_repoPath commit_c1) (commit_ref commit_c1)
             (remote_query commit_c1) = Inr [''origin/main''] \<and> [''origin/main''] \<noteq> []"
    by (simp add: remote_env_def commit_c1_def local_query_def remote_query_def)
  have n1: "node_class (branch_node ''main'' []) =
            BranchNode \<lparr>branch_repoPath = ''/w'', branch_name = ''main'', branch_ref = ''main'',
                        branch_remote = False\<rparr>"
    by (simp add: branch_node_def)
  have n2: "node_class (branch_node ''topic'' []) =
            BranchNode \<lparr>branch_repoPath = ''/w'', branch_name = ''topic'', branch_ref = ''topic'',
                        branch_remote = False\<rparr>"
    by (simp add: branch_node_def)
  have n3: "\<And>name. node_class (remote_node name) =
            RemoteNode \<lparr>remote_repoPath = ''/w'', remote_name = name\<rparr>"
    by (simp add: remote_node_def)
  note l1 = findCommit_scoping [of local_env commit_c1 "[''main'']" silent_engine None "branch_node ''main'' []"]
  note l2 = findCommit_scoping [of local_env commit_c1 "[''main'']" silent_engine None "branch_node ''topic'' []"]
  note l3 = findCommit_scoping [of local_env commit_c1 "[''main'']" silent_engine None "remote_node ''origin''"]
  note r1 = findCommit_scoping [of remote_env commit_c1 "[''origin/main'']" silent_engine None "remote_node ''origin''"]
  note r2 = findCommit_scoping [of remote_env commit_c1 "[''origin/main'']" silent_engine None "remote_node ''upstream''"]
  have "findCommit silent_engine local_env commit_c1 None =
     (Inr None, [GetCommitBranches ''/w'' ''c1'' None])"
    using l1 a by (simp add: silent_engine_def commit_c1_def local_query_def)
  moreover have "findCommit_local_canTraverse local_env commit_c1 [''main''] (branch_node ''main'' []) =
     (True, Some ''c1'')"
    using l1 a n1 by (simp add: commit_c1_def local_env_def example_env_def branch_node_def)
  moreover have "findCommit_local_canTraverse local_env commit_c1 [''main''] (branch_node ''topic'' []) =
     (False, None)"
    using l2 a n2 by simp
  moreover have "\<not> fst (findCommit_local_canTraverse local_env commit_c1 [''main''] (remote_node ''origin''))"
    using l3 a n3 by simp
  moreover have "findCommit silent_engine remote_env commit_c1 None =
     (Inr None, [GetCommitBranches ''/w'' ''c1'' None,
                 GetCommitBranches ''/w'' ''c1'' (Some \<lparr>commitDate = None, remotes = Some True\<rparr>)])"
    using r1 b by (simp add: silent_engine_def commit_c1_def local_query_def remote_query_def)
  moreover have "findCommit_remote_canTraverse remote_env commit_c1 [''origin/main''] (remote_node ''origin'') =
     (True, None)"
    using r1 b n3 [of "''origin''"]
    by (simp add: commit_c1_def remote_env_def example_env_def remote_node_def split_first_def)
  moreover have "findCommit_remote_canTraverse remote_env commit_c1 [''origin/main''] (remote_node ''upstream'') =
     (False, None)"
    using r2 b n3 [of "''upstream''"]
    by (simp add: split_first_def)
  ultimately show ?thesis by simp
qed

text \<open>
  Claim C2. For a remote branch reference the callback of \<^verbatim>\<open>findBranch\<close> admits a
  \<^verbatim>\<open>RemoteNode\<close> if and only if its id starts with the repository node id and its
  remote's name is the remote parsed from the branch name. For a local branch reference
  it admits only a \<^verbatim>\<open>RepositoriesNode\<close>, and a \<^verbatim>\<open>RepositoryNode\<close>, \<^verbatim>\<open>BranchesNode\<close> or
  \<^verbatim>\<open>BranchOrTagFolderNode\<close> whose id starts with the repository node id.
\<close>

theorem findBranch_scoping:
  assumes "canTraverse (findBranch_options env branch tok) = Some f"
  shows "(branch_remote branch \<longrightarrow>
           (\<forall>r. node_class n = RemoteNode r \<longrightarrow>
              fst (f n) =
                (prefix (RepositoryNode_getId env (branch_repoPath branch)) (node_id n) \<and>
                 remote_name r = GitBranch_getRemote env (branch_name branch)))) \<and>
         (\<not> branch_remote branch \<longrightarrow>
           (fst (f n) \<longrightarrow>
              node_class n \<in> {RepositoriesNode, RepositoryNode, BranchesNode, BranchOrTagFolderNode} \<and>
              (node_class n = RepositoriesNode \<or>
               prefix (RepositoryNode_getId env (branch_repoPath branch)) (node_id n))))"
proof (cases "branch_remote branch")
  case True
  with assms have f: "f = findBranch_remote_canTraverse env branch"
    by (simp add: findBranch_options_def)
  show ?thesis using True
    by (auto simp: f findBranch_remote_canTraverse_def Let_def)
next
  case False
  with assms have f: "f = findBranch_local_canTraverse env branch"
    by (simp add: findBranch_options_def)
  show ?thesis using False
    by (cases "node_class n") (auto simp: f findBranch_local_canTraverse_def Let_def)
qed

theorem findBranch_scoping_witness:
  "fst (findBranch_remote_canTraverse example_env origin_feature (remote_node ''origin'')) \<and>
   \<not> fst (findBranch_remote_canTraverse example_env origin_feature (remote_node ''upstream'')) \<and>
   \<not> fst (findBranch_local_canTraverse example_env local_feature (remote_node ''origin''))"
proof -
  have r: "canTraverse (findBranch_options example_env origin_feature None) =
           Some (findBranch_remote_canTraverse example_env origin_feature)"
    by (simp add: findBranch_options_def origin_feature_def)
  have l: "canTraverse (findBranch_options example_env local_feature None) =
           Some (findBranch_local_canTraverse example_env local_feature)"
    by (simp add: findBranch_options_def local_feature_def)
  have "fst (findBranch_remote_canTraverse example_env origin_feature (remote_node ''origin''))"
    using findBranch_scoping [OF r, of "remote_node ''origin''"]
    by (simp add: origin_feature_def remote_node_def example_env_def split_first_def)
  moreover have "\<not> fst (findBranch_remote_canTraverse example_env origin_feature (remote_node ''upstream''))"
    using findBranch_scoping [OF r, of "remote_node ''upstream''"]
    by (simp add: origin_feature_def remote_node_def example_env_def split_first_def)
  moreover have "\<not> fst (findBranch_local_canTraverse example_env local_feature (remote_node ''origin''))"
    using findBranch_scoping [OF l, of "remote_node ''origin''"]
    by (auto simp add: local_feature_def remote_node_def)
  ultimately show ?thesis by simp
qed

text \<open>
  Claim C5. Whatever node the callback of a query builder or of a section reveal admits
  is the \<^verbatim>\<open>RepositoriesNode\<close> root or has an id that starts with the id of the owning
  repository node.
\<close>

theorem canTraverse_within_repository:
  "(canTraverse (findBranch_options env branch tok) = Some f \<and> fst (f n) \<longrightarrow>
      node_class n = RepositoriesNode \<or>
      prefix (RepositoryNode_getId env (branch_repoPath branch)) (node_id n)) \<and>
   (canTraverse (findCommit_local_options env commit branches tok) = Some f \<and> fst (f n) \<longrightarrow>
      node_class n = RepositoriesNode \<or>
      prefix (RepositoryNode_getId env (commit_repoPath commit)) (node_id n)) \<and>
   (canTraverse (findCommit_remote_options env commit branches tok) = Some f \<and> fst (f n) \<longrightarrow>
      node_class n = RepositoriesNode \<or>
      prefix (RepositoryNode_getId env (commit_repoPath commit)) (node_id n)) \<and>
   (canTraverse (findContributor_options env contributor tok) = Some f \<and> fst (f n) \<longrightarrow>
      node_class n = RepositoriesNode \<or>
      prefix (RepositoryNode_getId env (contributor_repoPath contributor)) (node_id n)) \<and>
   (canTraverse (findRemote_options env remote tok) = Some f \<and> fst (f n) \<longrightarrow>
      node_class n = RepositoriesNode \<or>
      prefix (RepositoryNode_getId env (remote_repoPath remote)) (node_id n)) \<and>
   (canTraverse (findStash_options env stash tok) = Some f \<and> fst (f n) \<longrightarrow>
      node_class n = RepositoriesNode \<or>
      prefix (RepositoryNode_getId env (stash_repoPath stash)) (node_id n)) \<and>
   (canTraverse (findTag_options env tag tok) = Some f \<and> fst (f n) \<longrightarrow>
      node_class n = RepositoriesNode \<or>
      prefix (RepositoryNode_getId env (tag_repoPath tag)) (node_id n)) \<and>
   (canTraverse (findWorktree_options env worktree tok) = Some f \<and> fst (f n) \<longrightarrow>
      node_class n = RepositoriesNode \<or>
      prefix (RepositoryNode_getId env (worktree_repoPath worktree)) (node_id n)) \<and>
   (canTraverse (section_options env repoPath) = Some f \<and> fst (f n) \<longrightarrow>
      node_class n = RepositoriesNode \<or>
      prefix (RepositoryNode_getId env repoPath) (node_id n)) \<and>
   (canTraverse revealRepository_options = Some f \<and> fst (f n) \<longrightarrow>
      node_class n = RepositoriesNode)"
proof -
  have branch: "canTraverse (findBranch_options env branch tok) = Some f \<and> fst (f n) \<longrightarrow>
      node_class n = RepositoriesNode \<or>
      prefix (RepositoryNode_getId env (branch_repoPath branch)) (node_id n)"
    by (cases "node_class n")
      (auto simp: findBranch_options_def findBranch_remote_canTraverse_def
        findBranch_local_canTraverse_def Let_def split: if_splits)
  have commit_local: "canTraverse (findCommit_local_options env commit branches tok) = Some f \<and> fst (f n) \<longrightarrow>
      node_class n = RepositoriesNode \<or>
      prefix (RepositoryNode_getId env (commit_repoPath commit)) (node_id n)"
    by (cases "node_class n")
      (auto simp: findCommit_local_options_def findCommit_local_canTraverse_def Let_def
        split: if_splits)
  have commit_remote: "canTraverse (findCommit_remote_options env commit branches tok) = Some f \<and> fst (f n) \<longrightarrow>
      node_class n = RepositoriesNode \<or>
      prefix (RepositoryNode_getId env (commit_repoPath commit)) (node_id n)"
    by (cases "node_class n")
      (auto simp: findCommit_remote_options_def findCommit_remote_canTraverse_def Let_def)
  have contributor: "canTraverse (findContributor_options env contributor tok) = Some f \<and> fst (f n) \<longrightarrow>
      node_class n = RepositoriesNode \<or>
      prefix (RepositoryNode_getId env (contributor_repoPath contributor)) (node_id n)"
    by (cases "node_class n")
      (auto simp: findContributor_options_def findContributor_canTraverse_def Let_def)
  have remote: "canTraverse (findRemote_options env remote tok) = Some f \<and> fst (f n) \<longrightarrow>
      node_class n = RepositoriesNode \<or>
      prefix (RepositoryNode_getId env (remote_repoPath remote)) (node_id n)"
    by (cases "node_class n")
      (auto simp: findRemote_options_def findRemote_canTraverse_def Let_def)
  have stash: "canTraverse (findStash_options env stash tok) = Some f \<and> fst (f n) \<longrightarrow>
      node_class n = RepositoriesNode \<or>
      prefix (RepositoryNode_getId env (stash_repoPath stash)) (node_id n)"
    by (cases "node_class n")
      (auto simp: findStash_options_def findStash_canTraverse_def Let_def)
  have tag: "canTraverse (findTag_options env tag tok) = Some f \<and> fst (f n) \<longrightarrow>
      node_class n = RepositoriesNode \<or>
      prefix (RepositoryNode_getId env (tag_repoPath tag)) (node_id n)"
    by (cases "node_class n")
      (auto simp: findTag_options_def findTag_canTraverse_def Let_def)
  have worktree: "canTraverse (findWorktree_options env worktree tok) = Some f \<and> fst (f n) \<longrightarrow>
      node_class n = RepositoriesNode \<or>
      prefix (RepositoryNode_getId env (worktree_repoPath worktree)) (node_id n)"
    by (cases "node_class n")
      (auto simp: findWorktree_options_def findWorktree_canTraverse_def Let_def)
  have sect: "canTraverse (section_options env repoPath) = Some f \<and> fst (f n) \<longrightarrow>
      node_class n = RepositoriesNode \<or>
      prefix (RepositoryNode_getId env repoPath) (node_id n)"
    by (cases "node_class n")
      (auto simp: section_options_def section_canTraverse_def Let_def)
  have repo: "canTraverse revealRepository_options = Some f \<and> fst (f n) \<longrightarrow>
      node_class n = RepositoriesNode"
    by (cases "node_class n")
      (auto simp: revealRepository_options_def revealRepository_canTraverse_def)
  show ?thesis
    using branch commit_local commit_remote contributor remote stash tag worktree sect repo
    by blast
qed

theorem canTraverse_within_repository_witness:
  "prefix (RepositoryNode_getId example_env ''/w'') (node_id (inside_repo TagsNode)) \<and>
   \<not> prefix (RepositoryNode_getId example_env ''/w'') (node_id (outside_repo TagsNode)) \<and>
   fst (findBranch_local_canTraverse example_env local_feature (inside_repo BranchesNode)) \<and>
   \<not> fst (findBranch_local_canTraverse example_env local_feature (outside_repo BranchesNode)) \<and>
   fst (findCommit_local_canTraverse example_env commit_c1 [''main''] (inside_repo BranchesNode)) \<and>
   \<not> fst (findCommit_local_canTraverse example_env commit_c1 [''main''] (outside_repo BranchesNode)) \<and>
   fst (findCommit_remote_canTraverse example_env commit_c1 [''origin/main''] (inside_repo RemotesNode)) \<and>
   \<not> fst (findCommit_remote_canTraverse example_env commit_c1 [''origin/main''] (outside_repo RemotesNode)) \<and>
   fst (findContributor_canTraverse example_env example_contributor (inside_repo ContributorsNode)) \<and>
   \<not> fst (findContributor_canTraverse example_env example_contributor (outside_repo ContributorsNode)) \<and>
   fst (findRemote_canTraverse example_env example_remote (inside_repo RemotesNode)) \<and>
   \<not> fst (findRemote_canTraverse example_env example_remote (outside_repo RemotesNode)) \<and>
   fst (findStash_canTraverse example_env example_stash (inside_repo StashesNode)) \<and>
   \<not> fst (findStash_canTraverse example_env example_stash (outside_repo StashesNode)) \<and>
   fst (findTag_canTraverse example_env example_tag (inside_repo TagsNode)) \<and>
   \<not> fst (findTag_canTraverse example_env example_tag (outside_repo TagsNode)) \<and>
   fst (findWorktree_canTraverse example_env example_worktree (inside_repo WorktreesNode)) \<and>
   \<not> fst (findWorktree_canTraverse example_env example_worktree (outside_repo WorktreesNode)) \<and>
   fst (section_canTraverse example_env ''/w'' (inside_repo RepositoryNode)) \<and>
   \<not> fst (section_canTraverse example_env ''/w'' (outside_repo RepositoryNode)) \<and>
   fst (revealRepository_canTraverse (inside_repo RepositoriesNode)) \<and>
   \<not> fst (revealRepository_canTraverse (inside_repo RepositoryNode))"
proof -
  note general = canTraverse_within_repository [where env = example_env and tok = None
      and branch = local_feature and commit = commit_c1 and contributor = example_contributor
      and remote = example_remote and stash = example_stash and tag = example_tag
      and worktree = example_worktree and repoPath = "''/w''"]
  have outside: "\<not> prefix (RepositoryNode_getId example_env ''/w'') (node_id (outside_repo c))"
    "node_class (outside_repo c) = c" "node_class (inside_repo c) = c" for c
    by (simp_all add: example_env_def outside_repo_def inside_repo_def)
  have paths: "branch_repoPath local_feature = ''/w''" "commit_repoPath commit_c1 = ''/w''"
    "contributor_repoPath example_contributor = ''/w''" "remote_repoPath example_remote = ''/w''"
    "stash_repoPath example_stash = ''/w''" "tag_repoPath example_tag = ''/w''"
    "worktree_repoPath example_worktree = ''/w''"
    by (simp_all add: local_feature_def commit_c1_def example_contributor_def example_remote_def
        example_stash_def example_tag_def example_worktree_def)
  have in0: "fst (findBranch_local_canTraverse example_env local_feature (inside_repo BranchesNode))"
    by (simp add: findBranch_local_canTraverse_def local_feature_def example_env_def inside_repo_def Let_def)
  have out0: "\<not> fst (findBranch_local_canTraverse example_env local_feature (outside_repo BranchesNode))"
    using general [where branches = "[]" and n = "outside_repo BranchesNode"
        and f = "findBranch_local_canTraverse example_env local_feature"]
      outside [of BranchesNode] paths
    by (simp add: findBranch_options_def local_feature_def)
  have in1: "fst (findCommit_local_canTraverse example_env commit_c1 [''main''] (inside_repo BranchesNode))"
    by (simp add: findCommit_local_canTraverse_def commit_c1_def example_env_def inside_repo_def Let_def)
  have out1: "\<not> fst (findCommit_local_canTraverse example_env commit_c1 [''main''] (outside_repo BranchesNode))"
    using general [where branches = "[''main'']" and n = "outside_repo BranchesNode"
        and f = "findCommit_local_canTraverse example_env commit_c1 [''main'']"]
      outside [of BranchesNode] paths
    by (simp add: findCommit_local_options_def commit_c1_def)
  have in2: "fst (findCommit_remote_canTraverse example_env commit_c1 [''origin/main''] (inside_repo RemotesNode))"
    by (simp add: findCommit_remote_canTraverse_def commit_c1_def example_env_def inside_repo_def Let_def)
  have out2: "\<not> fst (findCommit_remote_canTraverse example_env commit_c1 [''origin/main''] (outside_repo RemotesNode))"
    using general [where branches = "[''origin/main'']" and n = "outside_repo RemotesNode"
        and f = "findCommit_remote_canTraverse example_env commit_c1 [''origin/main'']"]
      outside [of RemotesNode] paths
    by (simp add: findCommit_remote_options_def commit_c1_def)
  have in3: "fst (findContributor_canTraverse example_env example_contributor (inside_repo ContributorsNode))"
    by (simp add: findContributor_canTraverse_def example_contributor_def example_env_def inside_repo_def Let_def)
  have out3: "\<not> fst (findContributor_canTraverse example_env example_contributor (outside_repo ContributorsNode))"
    using general [where branches = "[]" and n = "outside_repo ContributorsNode"
        and f = "findContributor_canTraverse example_env example_contributor"]
      outside [of ContributorsNode] paths
    by (simp add: findContributor_options_def example_contributor_def)
  have in4: "fst (findRemote_canTraverse example_env example_remote (inside_repo RemotesNode))"
    by (simp add: findRemote_canTraverse_def example_remote_def example_env_def inside_repo_def Let_def)
  have out4: "\<not> fst (findRemote_canTraverse example_env example_remote (outside_repo RemotesNode))"
    using general [where branches = "[]" and n = "outside_repo RemotesNode"
        and f = "findRemote_canTraverse example_env example_remote"]
      outside [of RemotesNode] paths
    by (simp add: findRemote_options_def example_remote_def)
  have in5: "fst (findStash_canTraverse example_env example_stash (inside_repo StashesNode))"
    by (simp add: findStash_canTraverse_def example_stash_def example_env_def inside_repo_def Let_def)
  have out5: "\<not> fst (findStash_canTraverse example_env example_stash (outside_repo StashesNode))"
    using general [where branches = "[]" and n = "outside_repo StashesNode"
        and f = "findStash_canTraverse example_env example_stash"]
      outside [of StashesNode] paths
    by (simp add: findStash_options_def example_stash_def)
  have in6: "fst (findTag_canTraverse example_env example_tag (inside_repo TagsNode))"
    by (simp add: findTag_canTraverse_def example_tag_def example_env_def inside_repo_def Let_def)
  have out6: "\<not> fst (findTag_canTraverse example_env example_tag (outside_repo TagsNode))"
    using general [where branches = "[]" and n = "outside_repo TagsNode"
        and f = "findTag_canTraverse example_env example_tag"]
      outside [of TagsNode] paths
    by (simp add: findTag_options_def example_tag_def)
  have in7: "fst (findWorktree_canTraverse example_env example_worktree (inside_repo WorktreesNode))"
    by (simp add: findWorktree_canTraverse_def example_worktree_def example_env_def inside_repo_def Let_def)
  have out7: "\<not> fst (findWorktree_canTraverse example_env example_worktree (outside_repo WorktreesNode))"
    using general [where branches = "[]" and n = "outside_repo WorktreesNode"
        and f = "findWorktree_canTraverse example_env example_worktree"]
      outside [of WorktreesNode] paths
    by (simp add: findWorktree_options_def example_worktree_def)
  have in8: "fst (section_canTraverse example_env ''/w'' (inside_repo RepositoryNode))"
    by (simp add: section_canTraverse_def example_env_def inside_repo_def Let_def)
  have out8: "\<not> fst (section_canTraverse example_env ''/w'' (outside_repo RepositoryNode))"
    using general [where branches = "[]" and n = "outside_repo RepositoryNode"
        and f = "section_canTraverse example_env ''/w''"]
      outside [of RepositoryNode] paths
    by (simp add: section_options_def)
  have inside: "prefix (RepositoryNode_getId example_env ''/w'') (node_id (inside_repo TagsNode))"
    using general [where branches = "[]" and n = "inside_repo TagsNode"
        and f = "findTag_canTraverse example_env example_tag"]
      in6 outside [of TagsNode] paths
    by (simp add: findTag_options_def)
  have root: "fst (revealRepository_canTraverse (inside_repo RepositoriesNode))"
    by (simp add: revealRepository_canTraverse_def inside_repo_def)
  have repo: "\<not> fst (revealRepository_canTraverse (inside_repo RepositoryNode))"
    using general [where branches = "[]" and n = "inside_repo RepositoryNode"
        and f = revealRepository_canTraverse]
      outside [of RepositoryNode]
    by (simp add: revealRepository_options_def)
  show ?thesis
    using inside outside [of TagsNode] in0 out0 in1 out1 in2 out2 in3 out3 in4 out4 in5 out5 in6 out6 in7 out7 in8 out8 root repo
    by simp
qed

text \<open>
  Claim C6. When the search of a reveal operation comes back with no node, the reveal
  yields no node either, and what it has done is the progress notification of the
  operations that have one, followed by the search: no \<^verbatim>\<open>ensureRevealNode\<close> and no
  \<^verbatim>\<open>reveal\<close> is issued.
\<close>

theorem reveal_not_found_is_silent:
  "(fst (findBranch engine env branch (Some tok)) = Inr None \<longrightarrow>
      revealBranch engine env branch options tok =
        (Inr None,
         WithProgress (in_repositories_view (GitReference_toString env (BranchRef branch))) #
         snd (findBranch engine env branch (Some tok)))) \<and>
   (fst (findCommit engine env commit (Some tok)) = Inr None \<longrightarrow>
      revealCommit engine env commit options tok =
        (Inr None,
         WithProgress (in_repositories_view (GitReference_toString env (CommitRef commit))) #
         snd (findCommit engine env commit (Some tok)))) \<and>
   (fst (findContributor engine env contributor (Some tok)) = Inr None \<longrightarrow>
      revealContributor engine env contributor options tok =
        (Inr None,
         WithProgress
           (in_repositories_view (''contributor '' @ [CHR 0x27] @ contributor_name contributor)) #
         snd (findContributor engine env contributor (Some tok)))) \<and>
   (fst (findRemote engine env remote (Some tok)) = Inr None \<longrightarrow>
      revealRemote engine env remote options tok =
        (Inr None,
         WithProgress
           (''Revealing remote '' @ [CHR 0x27] @ remote_name remote @ [CHR 0x27] @
            '' in the side bar...'') #
         snd (findRemote engine env remote (Some tok)))) \<and>
   (fst (findStash engine env stash (Some tok)) = Inr None \<longrightarrow>
      revealStash engine env stash options tok =
        (Inr None,
         WithProgress (in_repositories_view (GitReference_toString env (StashRef stash))) #
         snd (findStash engine env stash (Some tok)))) \<and>
   (fst (findTag engine env tag (Some tok)) = Inr None \<longrightarrow>
      revealTag engine env tag options tok =
        (Inr None,
         WithProgress (in_repositories_view (GitReference_toString env (TagRef tag))) #
         snd (findTag engine env tag (Some tok)))) \<and>
   (fst (findWorktree engine env worktree (Some tok)) = Inr None \<longrightarrow>
      revealWorktree engine env worktree options tok =
        (Inr None,
         WithProgress
           (''Revealing worktree '' @ [CHR 0x27] @ worktree_name worktree @ [CHR 0x27] @
            '' in the side bar...'') #
         snd (findWorktree engine env worktree (Some tok)))) \<and>
   (fst (engine (ById (BranchesNode_getId env repoPath)) (section_options env repoPath)) = Inr None \<longrightarrow>
      revealBranches engine env repoPath options =
        (Inr None, snd (engine (ById (BranchesNode_getId env repoPath)) (section_options env repoPath)))) \<and>
   (fst (engine (ById (RepositoryNode_getId env repoPath)) revealRepository_options) = Inr None \<longrightarrow>
      revealRepository engine env repoPath options =
        (Inr None, snd (engine (ById (RepositoryNode_getId env repoPath)) revealRepository_options))) \<and>
   (fst (engine (ById (StashesNode_getId env repoPath)) (section_options env repoPath)) = Inr None \<longrightarrow>
      revealStashes engine env repoPath options =
        (Inr None, snd (engine (ById (StashesNode_getId env repoPath)) (section_options env repoPath)))) \<and>
   (fst (engine (ById (TagsNode_getId env repoPath)) (section_options env repoPath)) = Inr None \<longrightarrow>
      revealTags engine env repoPath options =
        (Inr None, snd (engine (ById (TagsNode_getId env repoPath)) (section_options env repoPath)))) \<and>
   (fst (engine (ById (WorktreesNode_getId env repoPath)) (section_options env repoPath)) = Inr None \<longrightarrow>
      revealWorktrees engine env repoPath options =
        (Inr None, snd (engine (ById (WorktreesNode_getId env repoPath)) (section_options env repoPath))))"
  by (simp add: revealBranch_def revealCommit_def revealContributor_def revealRemote_def
      revealStash_def revealTag_def revealWorktree_def revealBranches_def revealRepository_def
      revealStashes_def revealTags_def revealWorktrees_def
      withProgress_def then_ensureRevealNode_def then_reveal_def)

theorem reveal_not_found_is_silent_witness:
  "revealBranch silent_engine example_env local_feature None NeverCancelled =
     (Inr None, [WithProgress ''Revealing ref in the Repositories view...'']) \<and>
   revealCommit silent_engine example_env commit_c1 None NeverCancelled =
     (Inr None,
      [WithProgress ''Revealing ref in the Repositories view...'',
       GetCommitBranches ''/w'' ''c1'' None,
       GetCommitBranches ''/w'' ''c1'' (Some \<lparr>commitDate = None, remotes = Some True\<rparr>)]) \<and>
   revealCommit silent_engine local_env commit_c1 None NeverCancelled =
     (Inr None,
      [WithProgress ''Revealing ref in the Repositories view...'',
       GetCommitBranches ''/w'' ''c1'' None]) \<and>
   snd (revealContributor silent_engine example_env example_contributor None NeverCancelled) =
     [WithProgress (''Revealing contributor '' @ [CHR 0x27] @ ''Ada in the Repositories view...'')] \<and>
   snd (revealRemote silent_engine example_env example_remote None NeverCancelled) =
     [WithProgress (''Revealing remote '' @ [CHR 0x27] @ ''origin'' @ [CHR 0x27] @ '' in the side bar...'')] \<and>
   revealStash silent_engine example_env example_stash None NeverCancelled =
     (Inr None, [WithProgress ''Revealing ref in the Repositories view...'']) \<and>
   revealTag silent_engine example_env example_tag None NeverCancelled =
     (Inr None, [WithProgress ''Revealing ref in the Repositories view...'']) \<and>
   snd (revealWorktree silent_engine example_env example_worktree None NeverCancelled) =
     [WithProgress (''Revealing worktree '' @ [CHR 0x27] @ ''w2'' @ [CHR 0x27] @ '' in the side bar...'')] \<and>
   revealBranches silent_engine example_env ''/w'' None = (Inr None, []) \<and>
   revealRepository silent_engine example_env ''/w'' None = (Inr None, []) \<and>
   revealStashes silent_engine example_env ''/w'' None = (Inr None, []) \<and>
   revealTags silent_engine example_env ''/w'' None = (Inr None, []) \<and>
   revealWorktrees silent_engine example_env ''/w'' None = (Inr None, [])"
proof -
  have quiet: "\<And>m opts. silent_engine m opts = (Inr None, [])"
    by (simp add: silent_engine_def)
  have finds:
    "findBranch silent_engine example_env local_feature (Some NeverCancelled) = (Inr None, [])"
    "findCommit silent_engine example_env commit_c1 (Some NeverCancelled) =
       (Inr None, [GetCommitBranches ''/w'' ''c1'' None,
                   GetCommitBranches ''/w'' ''c1'' (Some \<lparr>commitDate = None, remotes = Some True\<rparr>)])"
    "findContributor silent_engine example_env example_contributor (Some NeverCancelled) = (Inr None, [])"
    "findRemote silent_engine example_env example_remote (Some NeverCancelled) = (Inr None, [])"
    "findStash silent_engine example_env example_stash (Some NeverCancelled) = (Inr None, [])"
    "findTag silent_engine example_env example_tag (Some NeverCancelled) = (Inr None, [])"
    "findWorktree silent_engine example_env example_worktree (Some NeverCancelled) = (Inr None, [])"
    by (simp_all add: quiet findBranch_def findCommit_def findContributor_def findRemote_def
        findStash_def findTag_def findWorktree_def Let_def example_env_def commit_c1_def
        local_query_def remote_query_def)
  have local: "findCommit silent_engine local_env commit_c1 (Some NeverCancelled) =
       (Inr None, [GetCommitBranches ''/w'' ''c1'' None])"
    by (simp add: quiet findCommit_def Let_def local_env_def commit_c1_def local_query_def)
  have names: "GitReference_toString example_env = (\<lambda>r. ''ref'')"
    "GitReference_toString local_env = (\<lambda>r. ''ref'')"
    "contributor_name example_contributor = ''Ada''"
    "remote_name example_remote = ''origin''"
    "worktree_name example_worktree = ''w2''"
    by (simp_all add: example_env_def local_env_def example_contributor_def example_remote_def
        example_worktree_def)
  note general = reveal_not_found_is_silent [where engine = silent_engine and branch = local_feature
      and commit = commit_c1 and contributor = example_contributor and remote = example_remote
      and stash = example_stash and tag = example_tag and worktree = example_worktree
      and repoPath = "''/w''" and options = None and tok = NeverCancelled]
  show ?thesis
    using general [where env = example_env] general [where env = local_env]
    by (simp add: finds local quiet names in_repositories_view_def)
qed

text \<open>
  Claim C9. When the provider knows of no local and of no remote branch containing the
  commit, \<^verbatim>\<open>findCommit\<close> yields no node after the two provider calls, whatever the
  engine would have done: the engine is not invoked.
\<close>

theorem findCommit_on_no_branch:
  "getCommitBranches env (commit_repoPath commit) (commit_ref commit) (local_query commit) = Inr [] \<and>
   getCommitBranches env (commit_repoPath commit) (commit_ref commit) (remote_query commit) = Inr []
   \<longrightarrow>
   findCommit engine env commit tok =
     (Inr None,
      [GetCommitBranches (commit_repoPath commit) (commit_ref commit) (local_query commit),
       GetCommitBranches (commit_repoPath commit) (commit_ref commit) (remote_query commit)])"
  by (simp add: findCommit_def Let_def)

theorem findCommit_on_no_branch_witness:
  "getCommitBranches example_env ''/w'' ''c1'' None = Inr [] \<and>
   getCommitBranches example_env ''/w'' ''c1'' (Some \<lparr>commitDate = None, remotes = Some True\<rparr>) = Inr [] \<and>
   findCommit eager_engine example_env commit_c1 (Some NeverCancelled) =
     (Inr None,
      [GetCommitBranches ''/w'' ''c1'' None,
       GetCommitBranches ''/w'' ''c1'' (Some \<lparr>commitDate = None, remotes = Some True\<rparr>)]) \<and>
   fst (eager_engine (findCommit_matcher commit_c1)
          (findCommit_remote_options example_env commit_c1 [] (Some NeverCancelled))) \<noteq> Inr None"
  using findCommit_on_no_branch [of example_env commit_c1 eager_engine "Some NeverCancelled"]
  by (simp add: example_env_def commit_c1_def local_query_def remote_query_def eager_engine_def)

section \<open>Properties of the traversal engine\<close>

subsection \<open>What a fetch hands back lies among the children\<close>

lemma first_page_nodes:
  "first_page ps = Inr (cs, rest) \<Longrightarrow> set cs \<union> set (page_nodes rest) \<subseteq> set (page_nodes ps)"
  by (induction ps rule: first_page.induct) (auto simp: page_nodes_def)

lemma load_until_nodes:
  "load_until ref ps = Inr (cs, rest) \<Longrightarrow> set cs \<union> set (page_nodes rest) \<subseteq> set (page_nodes ps)"
proof (induction ref ps arbitrary: cs rest rule: load_until.induct)
  case (3 ref cs0 rest0)
  then show ?case
    by (fastforce simp: page_nodes_def split: if_splits sum.splits prod.splits)
qed (auto simp: page_nodes_def)

subsection \<open>An invariant of the frontier holds of every event\<close>

lemma page_more_invariant:
  assumes "page_more opts m clock p cs ps = (out, evs)"
    and "\<forall>c \<in> set cs \<union> set (page_nodes ps). P (c # p)"
    and "P p" and "fst (evalCanTraverse opts (hd p))"
  shows "(\<forall>e \<in> set evs. sound_event P opts e) \<and>
         (\<forall>cs'. out = Next cs' \<longrightarrow> (\<forall>c \<in> set cs'. P (c # p)))"
  using assms
proof (induction opts m clock p cs ps arbitrary: out evs rule: page_more.induct)
  case (1 opts m clock p cs)
  then show ?case by auto
next
  case (2 opts m clock p cs pg rest)
  have here: "\<forall>e \<in> set (map (\<lambda>c. Tested (c # p)) cs @ [LoadMore p]). sound_event P opts e"
    using "2.prems" by (auto simp: sound_event_def)
  show ?case
  proof (cases "allowPaging opts \<noteq> Some True \<or> (\<exists>c \<in> set cs. matches m c)")
    case True
    then show ?thesis using "2.prems" here by (auto split: if_splits)
  next
    case quiet: False
    show ?thesis
    proof (cases pg)
      case None
      then show ?thesis using "2.prems" quiet here by auto
    next
      case (Some further)
      show ?thesis
      proof (cases "isCancellationRequested (token opts) (Suc clock)")
        case True
        then show ?thesis using "2.prems" quiet here Some by auto
      next
        case False
        obtain out' evs' where rec: "page_more opts m (Suc clock) p (cs @ further) rest = (out', evs')"
          by (cases "page_more opts m (Suc clock) p (cs @ further) rest")
        have nodes: "\<forall>c \<in> set (cs @ further) \<union> set (page_nodes rest). P (c # p)"
          using "2.prems"(2) Some by (auto simp: page_nodes_def)
        have ih: "(\<forall>e \<in> set evs'. sound_event P opts e) \<and>
                  (\<forall>cs'. out' = Next cs' \<longrightarrow> (\<forall>c \<in> set cs'. P (c # p)))"
          using "2.IH" [OF _ _ Some False rec nodes "2.prems"(3) "2.prems"(4)] quiet by blast
        have "out = out'" "evs = map (\<lambda>c. Tested (c # p)) cs @ LoadMore p # evs'"
          using "2.prems"(1) quiet Some False rec by auto
        then show ?thesis using ih here by auto
      qed
    qed
  qed
qed

lemma visit_invariant:
  assumes v: "visit opts m clock n anc = (out, evs)"
    and step: "\<And>c. \<not> matches m n \<Longrightarrow> length (n # anc) < maxDepth opts \<Longrightarrow>
                 fst (evalCanTraverse opts n) \<Longrightarrow> c \<in> set (children n) \<Longrightarrow> P (c # n # anc)"
    and here: "P (n # anc)"
  shows "(\<forall>e \<in> set evs. sound_event P opts e) \<and>
         (\<forall>cs. out = Next cs \<longrightarrow> (\<forall>c \<in> set cs. P (c # n # anc)))"
proof -
  let ?p = "n # anc"
  let ?asked = "case canTraverse opts of None \<Rightarrow> [] | Some f \<Rightarrow> [CanTraverse ?p]"
  have asked: "\<forall>e \<in> set (Tested ?p # ?asked). sound_event P opts e"
    using here by (auto simp: sound_event_def split: option.splits)
  show ?thesis
  proof (cases "matches m n \<or> maxDepth opts \<le> length ?p")
    case True
    then show ?thesis using v here
      by (auto simp: visit_def Let_def sound_event_def split: if_splits)
  next
    case deeper: False
    obtain ok until where ct: "evalCanTraverse opts n = (ok, until)"
      by (cases "evalCanTraverse opts n")
    show ?thesis
    proof (cases ok)
      case False
      then show ?thesis using v deeper ct asked
        by (auto simp: visit_def Let_def sound_event_def
            split: if_splits option.splits sum.splits prod.splits)
    next
      case True
      have kids: "\<And>c. c \<in> set (children n) \<Longrightarrow> P (c # ?p)"
        using step deeper ct True by simp
      show ?thesis
      proof (cases until)
        case None
        show ?thesis
        proof (cases "first_page (pages n)")
          case (Inl failure)
          then show ?thesis using v deeper ct True None asked
            by (auto simp: visit_def Let_def sound_event_def)
        next
          case (Inr loaded)
          obtain cs rest where l: "loaded = (cs, rest)" by (cases loaded)
          have sub: "set cs \<union> set (page_nodes rest) \<subseteq> set (children n)"
            using first_page_nodes Inr l by (simp add: children_def)
          have fetch: "sound_event P opts (GetChildren ?p)"
            using here ct True by (simp add: sound_event_def)
          show ?thesis
          proof (cases "isCancellationRequested (token opts) (Suc clock)")
            case True
            then show ?thesis using v deeper ct \<open>ok\<close> None Inr l asked fetch
              by (auto simp: visit_def Let_def)
          next
            case False
            obtain out' evs' where pm: "page_more opts m (Suc clock) ?p cs rest = (out', evs')"
              by (cases "page_more opts m (Suc clock) ?p cs rest")
            have inv: "(\<forall>e \<in> set evs'. sound_event P opts e) \<and>
                       (\<forall>cs'. out' = Next cs' \<longrightarrow> (\<forall>c \<in> set cs'. P (c # ?p)))"
              using page_more_invariant [OF pm, of P] kids sub here ct True by auto
            have "out = out'" "evs = Tested ?p # ?asked @ GetChildren ?p # evs'"
              using v deeper ct \<open>ok\<close> None Inr l False pm by (auto simp: visit_def Let_def)
            then show ?thesis using inv asked fetch by auto
          qed
        qed
      next
        case (Some ref)
        have load: "sound_event P opts (LoadMoreUntil ?p ref)"
          using here ct Some by (simp add: sound_event_def)
        show ?thesis
        proof (cases "load_until ref (pages n)")
          case (Inl failure)
          then show ?thesis using v deeper ct True Some asked load
            by (auto simp: visit_def Let_def)
        next
          case (Inr loaded)
          obtain cs rest where l: "loaded = (cs, rest)" by (cases loaded)
          have sub: "set cs \<union> set (page_nodes rest) \<subseteq> set (children n)"
            using load_until_nodes Inr l by (simp add: children_def)
          show ?thesis
          proof (cases "isCancellationRequested (token opts) (Suc clock)")
            case True
            then show ?thesis using v deeper ct \<open>ok\<close> Some Inr l asked load
              by (auto simp: visit_def Let_def)
          next
            case False
            obtain out' evs' where pm: "page_more opts m (Suc clock) ?p cs rest = (out', evs')"
              by (cases "page_more opts m (Suc clock) ?p cs rest")
            have inv: "(\<forall>e \<in> set evs'. sound_event P opts e) \<and>
                       (\<forall>cs'. out' = Next cs' \<longrightarrow> (\<forall>c \<in> set cs'. P (c # ?p)))"
              using page_more_invariant [OF pm, of P] kids sub here ct True by auto
            have "out = out'" "evs = Tested ?p # ?asked @ LoadMoreUntil ?p ref # evs'"
              using v deeper ct \<open>ok\<close> Some Inr l False pm by (auto simp: visit_def Let_def)
            then show ?thesis using inv asked load by auto
          qed
        qed
      qed
    qed
  qed
qed

lemma walk_invariant:
  assumes "\<And>n anc c. P (n # anc) \<Longrightarrow> \<not> matches m n \<Longrightarrow> length (n # anc) < maxDepth opts \<Longrightarrow>
                 fst (evalCanTraverse opts n) \<Longrightarrow> c \<in> set (children n) \<Longrightarrow> P (c # n # anc)"
    and "\<forall>(n, anc) \<in> set queue. P (n # anc)"
  shows "\<forall>e \<in> set (snd (walk opts m clock queue)). sound_event P opts e"
  using assms
proof (induction opts m clock queue rule: walk.induct)
  case (1 opts m clock)
  then show ?case by simp
next
  case (2 opts m clock n anc queue)
  note step = "2.prems"(1)
  show ?case
  proof (cases "isCancellationRequested (token opts) clock")
    case True
    then show ?thesis by simp
  next
    case False
    obtain out evs where v: "visit opts m clock n anc = (out, evs)"
      by (cases "visit opts m clock n anc")
    have here: "P (n # anc)" using "2.prems"(2) by simp
    have inv: "(\<forall>e \<in> set evs. sound_event P opts e) \<and>
               (\<forall>cs. out = Next cs \<longrightarrow> (\<forall>c \<in> set cs. P (c # n # anc)))"
    proof (rule visit_invariant [of opts m clock n anc out evs P])
      show "visit opts m clock n anc = (out, evs)" by (rule v)
      show "P (n # anc)" by (rule here)
      show "\<And>c. \<not> matches m n \<Longrightarrow> length (n # anc) < maxDepth opts \<Longrightarrow>
                 fst (evalCanTraverse opts n) \<Longrightarrow> c \<in> set (children n) \<Longrightarrow> P (c # n # anc)"
        by (rule step [OF here])
    qed
    show ?thesis
    proof (cases out)
      case (Done r)
      then show ?thesis using False v inv by simp
    next
      case (Next cs)
      have q: "\<forall>(n', anc') \<in> set (queue @ map (\<lambda>c. (c, n # anc)) cs). P (n' # anc')"
        using "2.prems"(2) inv Next by auto
      have ih: "\<forall>e \<in> set (snd (walk opts m (clock + suspensions evs)
                   (queue @ map (\<lambda>c. (c, n # anc)) cs))). sound_event P opts e"
        using "2.IH" [OF False v [symmetric] _ step q] Next by simp
      show ?thesis using False v Next inv ih
        by (auto split: prod.splits)
    qed
  qed
qed

lemma findNode_invariant:
  assumes step: "\<And>n anc c. P (n # anc) \<Longrightarrow> \<not> matches m n \<Longrightarrow> length (n # anc) < maxDepth opts \<Longrightarrow>
                 fst (evalCanTraverse opts n) \<Longrightarrow> c \<in> set (children n) \<Longrightarrow> P (c # n # anc)"
    and root: "P []"
    and seeds: "\<And>c. c \<in> set (children root) \<Longrightarrow> P [c]"
  shows "\<forall>e \<in> set (snd (findNode root m opts)). sound_event P opts e"
proof (cases "isCancellationRequested (token opts) 0")
  case True
  then show ?thesis by (simp add: findNode_def)
next
  case False
  have first: "sound_event P opts GetRootChildren"
    using root by (simp add: sound_event_def)
  show ?thesis
  proof (cases "first_page (pages root)")
    case (Inl failure)
    then show ?thesis using False first by (simp add: findNode_def)
  next
    case (Inr loaded)
    obtain cs rest where l: "loaded = (cs, rest)" by (cases loaded)
    have "set cs \<subseteq> set (children root)"
      using first_page_nodes Inr l by (auto simp: children_def)
    then have q: "\<forall>(n, anc) \<in> set (map (\<lambda>c. (c, [])) cs). P (n # anc)"
      using seeds by auto
    have "\<forall>e \<in> set (snd (walk opts m 1 (map (\<lambda>c. (c, [])) cs))). sound_event P opts e"
      by (rule walk_invariant [of P m opts, OF step q])
    then show ?thesis using False Inr l first
      by (auto simp: findNode_def split: prod.splits)
  qed
qed

lemma findNode_pruning:
  assumes "e \<in> set (snd (findNode root m opts))"
  shows "is_path root (event_chain e) \<and>
         (\<forall>a \<in> set (tl (event_chain e)). fst (evalCanTraverse opts a) \<and> \<not> matches m a) \<and>
         (engine_fetch e \<longrightarrow> fst (evalCanTraverse opts (hd (event_chain e)))) \<and>
         (\<forall>p r. e = LoadMoreUntil p r \<longrightarrow> snd (evalCanTraverse opts (hd p)) = Some r)"
proof -
  let ?P = "\<lambda>p. is_path root p \<and> (\<forall>a \<in> set (tl p). fst (evalCanTraverse opts a) \<and> \<not> matches m a)"
  have "\<forall>e \<in> set (snd (findNode root m opts)). sound_event ?P opts e"
    by (rule findNode_invariant) auto
  then show ?thesis using assms by (auto simp: sound_event_def)
qed

lemma findNode_depth_bound:
  assumes "e \<in> set (snd (findNode root m opts))" and "1 \<le> maxDepth opts"
  shows "length (event_chain e) \<le> maxDepth opts"
proof -
  let ?P = "\<lambda>p. length p \<le> maxDepth opts"
  have "\<forall>e \<in> set (snd (findNode root m opts)). sound_event ?P opts e"
    by (rule findNode_invariant) (use assms(2) in auto)
  then show ?thesis using assms by (auto simp: sound_event_def)
qed

subsection \<open>A node is tested before the callback is asked about it\<close>

lemma page_more_events:
  "page_more opts m clock p cs ps = (out, evs) \<Longrightarrow>
   \<forall>e \<in> set evs. (\<exists>c. e = Tested (c # p)) \<or> e = LoadMore p"
proof (induction opts m clock p cs ps arbitrary: out evs rule: page_more.induct)
  case (1 opts m clock p cs)
  then show ?case by simp
next
  case (2 opts m clock p cs pg rest)
  then show ?case
    by (fastforce split: if_splits option.splits prod.splits)
qed

lemma follows_append:
  "follows prev (xs @ ys) =
     (follows prev xs \<and> follows (if xs = [] then prev else Some (last xs)) ys)"
  by (induction xs arbitrary: prev) auto

lemma follows_free:
  "\<forall>e \<in> set evs. \<forall>p. e \<noteq> CanTraverse p \<Longrightarrow> follows prev evs"
  by (induction evs arbitrary: prev) (auto split: event.splits)

lemma follows_nth:
  "follows prev evs \<Longrightarrow> i < length evs \<Longrightarrow> evs ! i = CanTraverse p \<Longrightarrow>
   (if i = 0 then prev = Some (Tested p) else evs ! (i - 1) = Tested p)"
proof (induction evs arbitrary: prev i)
  case Nil
  then show ?case by simp
next
  case (Cons e evs)
  show ?case
  proof (cases i)
    case 0
    then show ?thesis using Cons.prems by simp
  next
    case (Suc j)
    have "if j = 0 then Some e = Some (Tested p) else evs ! (j - 1) = Tested p"
      using Cons.IH [of "Some e" j] Cons.prems Suc by simp
    then show ?thesis using Suc by (cases j) auto
  qed
qed

lemma visit_follows:
  assumes "visit opts m clock n anc = (out, evs)"
  shows "follows prev evs"
proof -
  have pm: "\<And>c cs rest out' evs'. page_more opts m c (n # anc) cs rest = (out', evs') \<Longrightarrow>
            follows prev' evs'" for prev'
    using page_more_events by (fastforce intro: follows_free)
  show ?thesis
    using assms pm
    by (auto simp: visit_def Let_def follows_append
        split: if_splits option.splits sum.splits prod.splits)
qed

lemma walk_follows: "follows prev (snd (walk opts m clock queue))"
proof (induction opts m clock queue arbitrary: prev rule: walk.induct)
  case (1 opts m clock)
  then show ?case by simp
next
  case (2 opts m clock n anc queue)
  show ?case
  proof (cases "isCancellationRequested (token opts) clock")
    case True
    then show ?thesis by simp
  next
    case False
    obtain out evs where v: "visit opts m clock n anc = (out, evs)"
      by (cases "visit opts m clock n anc")
    show ?thesis
    proof (cases out)
      case (Done r)
      then show ?thesis using False v visit_follows [OF v] by simp
    next
      case (Next cs)
      obtain r' evs' where w: "walk opts m (clock + suspensions evs)
          (queue @ map (\<lambda>c. (c, n # anc)) cs) = (r', evs')"
        by (cases "walk opts m (clock + suspensions evs) (queue @ map (\<lambda>c. (c, n # anc)) cs)")
      have "\<And>prev'. follows prev' evs'"
        using "2.IH" [OF False v [symmetric] Next] w by simp
      then show ?thesis
        using False v Next w visit_follows [OF v, of prev]
        by (simp add: follows_append)
    qed
  qed
qed

lemma walk_follows_result: "walk opts m clock queue = (r, evs) \<Longrightarrow> follows prev evs"
  using walk_follows [of prev opts m clock queue] by simp

lemma findNode_follows: "follows None (snd (findNode root m opts))"
  by (auto simp: findNode_def intro: walk_follows_result split: sum.splits prod.splits)

lemma findNode_tested_first:
  assumes "i < length (snd (findNode root m opts))"
    and "snd (findNode root m opts) ! i = CanTraverse p"
  shows "0 < i \<and> snd (findNode root m opts) ! (i - 1) = Tested p"
  using follows_nth [OF findNode_follows assms] by (cases "i = 0") auto

subsection \<open>Nothing happens once the token has fired\<close>

lemma suspensions_simps [simp]:
  "suspensions [] = 0"
  "suspensions (e # evs) = (if suspends e then Suc (suspensions evs) else suspensions evs)"
  "suspensions (xs @ ys) = suspensions xs + suspensions ys"
  by (simp_all add: suspensions_def)

lemma suspensions_tested [simp]: "suspensions (map (\<lambda>c. Tested (f c)) cs) = 0"
  by (induction cs) simp_all










subsection \<open>A commit search asks the provider before it reads the token\<close>




lemma provider_calls_simps [simp]:
  "provider_calls [] = 0"
  "provider_calls (e # evs) = (if provider_call e then Suc (provider_calls evs) else provider_calls evs)"
  by (simp_all add: provider_calls_def)







subsection \<open>No page is requested unless paging is allowed\<close>

lemma page_more_unpaged:
  "allowPaging opts \<noteq> Some True \<Longrightarrow> page_more opts m clock p cs ps = (Next cs, [])"
  by (cases ps) simp_all

lemma visit_unpaged:
  assumes "allowPaging opts \<noteq> Some True" and "\<forall>n. snd (evalCanTraverse opts n) = None"
    and "visit opts m clock n anc = (out, evs)"
  shows "\<forall>e \<in> set evs. \<not> page_request e"
proof -
  have "snd (evalCanTraverse opts n) = None" using assms(2) by simp
  then show ?thesis
    using assms(3) page_more_unpaged [OF assms(1)]
    by (auto simp: visit_def Let_def split: if_splits option.splits sum.splits prod.splits)
qed

lemma walk_unpaged:
  assumes "allowPaging opts \<noteq> Some True" and "\<forall>n. snd (evalCanTraverse opts n) = None"
  shows "\<forall>e \<in> set (snd (walk opts m clock queue)). \<not> page_request e"
  using assms
proof (induction opts m clock queue rule: walk.induct)
  case (1 opts m clock)
  then show ?case by simp
next
  case (2 opts m clock n anc queue)
  show ?case
  proof (cases "isCancellationRequested (token opts) clock")
    case True
    then show ?thesis by simp
  next
    case False
    obtain out evs where v: "visit opts m clock n anc = (out, evs)"
      by (cases "visit opts m clock n anc")
    have here: "\<forall>e \<in> set evs. \<not> page_request e"
      by (rule visit_unpaged [OF "2.prems" v])
    show ?thesis
    proof (cases out)
      case (Done r)
      then show ?thesis using False v here by simp
    next
      case (Next cs)
      have "\<forall>e \<in> set (snd (walk opts m (clock + suspensions evs)
               (queue @ map (\<lambda>c. (c, n # anc)) cs))). \<not> page_request e"
        using "2.IH" [OF False v [symmetric] Next "2.prems"] .
      then show ?thesis using False v Next here
        by (auto split: prod.splits)
    qed
  qed
qed

lemma findNode_unpaged:
  assumes "allowPaging opts \<noteq> Some True" and "\<forall>n. snd (evalCanTraverse opts n) = None"
  shows "\<forall>e \<in> set (snd (findNode root m opts)). \<not> page_request e"
proof (cases "first_page (pages root)")
  case (Inl failure)
  then show ?thesis by (simp add: findNode_def)
next
  case (Inr loaded)
  obtain cs rest where l: "loaded = (cs, rest)" by (cases loaded)
  obtain r' T' where w: "walk opts m 1 (map (\<lambda>c. (c, [])) cs) = (r', T')"
    by (cases "walk opts m 1 (map (\<lambda>c. (c, [])) cs)")
  have "\<forall>e \<in> set T'. \<not> page_request e"
    using walk_unpaged [OF assms, of m 1 "map (\<lambda>c. (c, [])) cs"] w by simp
  then show ?thesis using Inr l w by (simp add: findNode_def)
qed

subsection \<open>A provider that never raises\<close>









subsection \<open>The claims about the engine\<close>

text \<open>
  Claim C3. Let the callback refuse the node \<open>n\<close>. Then every event of a search is about
  a node on a path of the tree on which \<open>n\<close> is no proper ancestor: no descendant of
  \<open>n\<close> is tested against the matcher, asked about or has its children fetched. The
  engine fetches no children of \<open>n\<close> itself, a "load more until" is only ever what the
  callback asked for on the node it was given, and whenever the callback is asked
  about a node, that node was tested against the matcher directly before. (The callback
  is asked about the nodes below the search root; the root's children seed the
  frontier.)
\<close>

theorem pruning_correctness:
  assumes "\<not> fst (evalCanTraverse opts n)"
  shows "(\<forall>e \<in> set (snd (findNode root m opts)).
            is_path root (event_chain e) \<and>
            n \<notin> set (tl (event_chain e)) \<and>
            (engine_fetch e \<longrightarrow> hd (event_chain e) \<noteq> n) \<and>
            (\<forall>p r. e = LoadMoreUntil p r \<longrightarrow> snd (evalCanTraverse opts (hd p)) = Some r)) \<and>
         (\<forall>i p. i < length (snd (findNode root m opts)) \<and>
                 snd (findNode root m opts) ! i = CanTraverse p \<longrightarrow>
                 0 < i \<and> snd (findNode root m opts) ! (i - 1) = Tested p)"
proof -
  have "is_path root (event_chain e) \<and> n \<notin> set (tl (event_chain e)) \<and>
        (engine_fetch e \<longrightarrow> hd (event_chain e) \<noteq> n) \<and>
        (\<forall>p r. e = LoadMoreUntil p r \<longrightarrow> snd (evalCanTraverse opts (hd p)) = Some r)"
    if "e \<in> set (snd (findNode root m opts))" for e
    using findNode_pruning [OF that] assms by blast
  then show ?thesis using findNode_tested_first by blast
qed

theorem pruning_correctness_witness:
  "\<not> fst (evalCanTraverse (findWorktree_options example_env example_worktree None) repo_elsewhere) \<and>
   Tested [repo_elsewhere] \<in> set (snd (findWorktree (findNode example_tree) example_env example_worktree None)) \<and>
   CanTraverse [repo_elsewhere] \<in> set (snd (findWorktree (findNode example_tree) example_env example_worktree None)) \<and>
   GetChildren [repo_elsewhere] \<notin> set (snd (findWorktree (findNode example_tree) example_env example_worktree None)) \<and>
   Tested [worktrees_elsewhere, repo_elsewhere] \<notin> set (snd (findWorktree (findNode example_tree) example_env example_worktree None)) \<and>
   GetChildren [repo_w] \<in> set (snd (findWorktree (findNode example_tree) example_env example_worktree None)) \<and>
   Tested [worktrees_w, repo_w] \<in> set (snd (findWorktree (findNode example_tree) example_env example_worktree None))"
proof -
  let ?opts = "findWorktree_options example_env example_worktree None"
  let ?T = "snd (findWorktree (findNode example_tree) example_env example_worktree None)"
  have refused: "\<not> fst (evalCanTraverse ?opts repo_elsewhere)"
    by code_simp
  have T: "?T = snd (findNode example_tree
             (ById (WorktreeNode_getId example_env (worktree_repoPath example_worktree)
                      (worktree_uri example_worktree))) ?opts)"
    by (simp add: findWorktree_def)
  note general = pruning_correctness [OF refused, of example_tree
      "ById (WorktreeNode_getId example_env (worktree_repoPath example_worktree)
               (worktree_uri example_worktree))"]
  have a: "GetChildren [repo_elsewhere] \<notin> set ?T"
    using general unfolding T [symmetric] by fastforce
  have b: "Tested [worktrees_elsewhere, repo_elsewhere] \<notin> set ?T"
    using general unfolding T [symmetric] by fastforce
  have c: "Tested [repo_elsewhere] \<in> set ?T" by code_simp
  have d: "CanTraverse [repo_elsewhere] \<in> set ?T" by code_simp
  have e: "GetChildren [repo_w] \<in> set ?T" by code_simp
  have f: "Tested [worktrees_w, repo_w] \<in> set ?T" by code_simp
  show ?thesis using refused a b c d e f by blast
qed

text \<open>
  The scenario of the spec: in the search for a remote branch, a remote other than the
  one parsed from the branch name is never expanded.
\<close>

lemma unrelated_remote_is_never_expanded:
  assumes "branch_remote branch" and "node_class u = RemoteNode r"
    and "remote_name r \<noteq> GitBranch_getRemote env (branch_name branch)"
    and "e \<in> set (snd (findBranch (findNode root) env branch tok))"
  shows "u \<notin> set (tl (event_chain e)) \<and> (engine_fetch e \<longrightarrow> hd (event_chain e) \<noteq> u)"
proof -
  have "\<not> fst (evalCanTraverse (findBranch_options env branch tok) u)"
    using assms(1-3)
    by (simp add: evalCanTraverse_def findBranch_options_def findBranch_remote_canTraverse_def
        Let_def)
  then show ?thesis
    using findNode_pruning [of e root "findBranch_matcher branch" "findBranch_options env branch tok"]
      assms(4)
    by (auto simp: findBranch_def)
qed

text \<open>
  Claim C4. The worktree search is bounded by depth 2, the commit search through remote
  branches by 8, the tag, stash, remote and contributor searches by 5, 3, 2 and 2; and
  in a search with the options of any query builder or section reveal, every event is
  about a node whose depth below the search root is at most the \<^verbatim>\<open>maxDepth\<close> of those
  options.
\<close>

theorem depth_bounds:
  "maxDepth (findWorktree_options env worktree tok) = 2 \<and>
   maxDepth (findCommit_remote_options env commit branches tok) = 8 \<and>
   maxDepth (findTag_options env tag tok) = 5 \<and>
   maxDepth (findStash_options env stash tok) = 3 \<and>
   maxDepth (findRemote_options env remote tok) = 2 \<and>
   maxDepth (findContributor_options env contributor tok) = 2 \<and>
   (opts \<in> {findBranch_options env branch tok,
             findCommit_local_options env commit branches tok,
             findCommit_remote_options env commit branches tok,
             findContributor_options env contributor tok,
             findRemote_options env remote tok,
             findStash_options env stash tok,
             findTag_options env tag tok,
             findWorktree_options env worktree tok,
             section_options env repoPath,
             revealRepository_options} \<longrightarrow>
    (\<forall>e \<in> set (snd (findNode root m opts)). length (event_chain e) \<le> maxDepth opts))"
proof -
  have "1 \<le> maxDepth opts"
    if "opts \<in> {findBranch_options env branch tok,
             findCommit_local_options env commit branches tok,
             findCommit_remote_options env commit branches tok,
             findContributor_options env contributor tok,
             findRemote_options env remote tok,
             findStash_options env stash tok,
             findTag_options env tag tok,
             findWorktree_options env worktree tok,
             section_options env repoPath,
             revealRepository_options}"
    using that
    by (auto simp: findBranch_options_def findCommit_local_options_def
        findCommit_remote_options_def findContributor_options_def findRemote_options_def
        findStash_options_def findTag_options_def findWorktree_options_def
        section_options_def revealRepository_options_def)
  then show ?thesis
    using findNode_depth_bound [of _ root m opts]
    by (simp add: findCommit_remote_options_def findContributor_options_def
        findRemote_options_def findStash_options_def findTag_options_def
        findWorktree_options_def)
qed

theorem depth_bounds_witness:
  "maxDepth (findWorktree_options example_env example_worktree None) = 2 \<and>
   Tested [worktrees_w, repo_w] \<in>
     set (snd (findWorktree (findNode example_tree) example_env example_worktree None)) \<and>
   length [worktree_w2, worktrees_w, repo_w] = 3 \<and>
   is_path example_tree [worktree_w2, worktrees_w, repo_w] \<and>
   Tested [worktree_w2, worktrees_w, repo_w] \<notin>
     set (snd (findWorktree (findNode example_tree) example_env example_worktree None)) \<and>
   GetChildren [worktrees_w, repo_w] \<notin>
     set (snd (findWorktree (findNode example_tree) example_env example_worktree None))"
proof -
  let ?opts = "findWorktree_options example_env example_worktree None"
  let ?m = "ById (WorktreeNode_getId example_env (worktree_repoPath example_worktree)
               (worktree_uri example_worktree))"
  let ?T = "snd (findWorktree (findNode example_tree) example_env example_worktree None)"
  have T: "?T = snd (findNode example_tree ?m ?opts)"
    by (simp add: findWorktree_def)
  note general = depth_bounds [where env = example_env and worktree = example_worktree
      and tok = None and opts = ?opts and root = example_tree and m = ?m]
  have depth: "maxDepth ?opts = 2" using general by simp
  have bounded: "\<forall>e \<in> set ?T. length (event_chain e) \<le> 2"
    using general unfolding T depth [symmetric] by simp
  have a: "Tested [worktree_w2, worktrees_w, repo_w] \<notin> set ?T"
    using bounded by fastforce
  have b: "Tested [worktrees_w, repo_w] \<in> set ?T" by code_simp
  have c: "is_path example_tree [worktree_w2, worktrees_w, repo_w]" by code_simp
  have d: "GetChildren [worktrees_w, repo_w] \<notin> set ?T" by code_simp
  show ?thesis using depth a b c d by simp
qed




text \<open>
  Claim C10. The branch, commit, remote and tag builders pass \<^verbatim>\<open>allowPaging: true\<close>;
  the contributor, stash and worktree builders and the section reveals leave it out, and
  a search with their options requests no page, neither by the engine nor by the
  callback: it looks at the children the first fetch produced and no further.
\<close>

theorem paging_only_where_allowed:
  "allowPaging (findBranch_options env branch tok) = Some True \<and>
   allowPaging (findCommit_local_options env commit branches tok) = Some True \<and>
   allowPaging (findCommit_remote_options env commit branches tok) = Some True \<and>
   allowPaging (findRemote_options env remote tok) = Some True \<and>
   allowPaging (findTag_options env tag tok) = Some True \<and>
   allowPaging (findContributor_options env contributor tok) = None \<and>
   allowPaging (findStash_options env stash tok) = None \<and>
   allowPaging (findWorktree_options env worktree tok) = None \<and>
   allowPaging (section_options env repoPath) = None \<and>
   allowPaging revealRepository_options = None \<and>
   (opts \<in> {findContributor_options env contributor tok,
             findStash_options env stash tok,
             findWorktree_options env worktree tok,
             section_options env repoPath,
             revealRepository_options} \<longrightarrow>
    (\<forall>e \<in> set (snd (findNode root m opts)). \<not> page_request e))"
proof -
  have c: "snd (findContributor_canTraverse env contributor n) = None" for n
    by (cases "node_class n") (simp_all add: findContributor_canTraverse_def Let_def)
  have s: "snd (findStash_canTraverse env stash n) = None" for n
    by (cases "node_class n") (simp_all add: findStash_canTraverse_def Let_def)
  have w: "snd (findWorktree_canTraverse env worktree n) = None" for n
    by (cases "node_class n") (simp_all add: findWorktree_canTraverse_def Let_def)
  have x: "snd (section_canTraverse env repoPath n) = None" for n
    by (cases "node_class n") (simp_all add: section_canTraverse_def Let_def)
  have y: "snd (revealRepository_canTraverse n) = None" for n
    by (cases "node_class n") (simp_all add: revealRepository_canTraverse_def)
  have "allowPaging opts \<noteq> Some True \<and> (\<forall>n. snd (evalCanTraverse opts n) = None)"
    if "opts \<in> {findContributor_options env contributor tok,
             findStash_options env stash tok,
             findWorktree_options env worktree tok,
             section_options env repoPath,
             revealRepository_options}"
    using that c s w x y
    by (auto simp: evalCanTraverse_def findContributor_options_def findStash_options_def
        findWorktree_options_def section_options_def revealRepository_options_def)
  then have "opts \<in> {findContributor_options env contributor tok,
             findStash_options env stash tok,
             findWorktree_options env worktree tok,
             section_options env repoPath,
             revealRepository_options} \<longrightarrow>
    (\<forall>e \<in> set (snd (findNode root m opts)). \<not> page_request e)"
    using findNode_unpaged [of opts root m] by blast
  then show ?thesis
    by (simp add: findBranch_options_def findCommit_local_options_def
        findCommit_remote_options_def findRemote_options_def findTag_options_def
        findContributor_options_def findStash_options_def findWorktree_options_def
        section_options_def revealRepository_options_def)
qed

theorem paging_only_where_allowed_witness:
  "allowPaging (findStash_options example_env example_stash None) = None \<and>
   GetChildren [stashes_w, repo_w] \<in>
     set (snd (findStash (findNode example_tree) example_env example_stash None)) \<and>
   LoadMore [stashes_w, repo_w] \<notin>
     set (snd (findStash (findNode example_tree) example_env example_stash None)) \<and>
   fst (findStash (findNode example_tree) example_env example_stash None) = Inr None \<and>
   LoadMore [tags_w, repo_w] \<in>
     set (snd (findTag (findNode example_tree) example_env example_tag None)) \<and>
   fst (findTag (findNode example_tree) example_env example_tag None) \<noteq> Inr None"
proof -
  let ?opts = "findStash_options example_env example_stash None"
  let ?m = "ById (StashNode_getId example_env (stash_repoPath example_stash) (stash_ref example_stash))"
  let ?T = "snd (findStash (findNode example_tree) example_env example_stash None)"
  have T: "?T = snd (findNode example_tree ?m ?opts)"
    by (simp add: findStash_def)
  note general = paging_only_where_allowed [where env = example_env and stash = example_stash
      and tok = None and opts = ?opts and root = example_tree and m = ?m]
  have unset: "allowPaging ?opts = None" using general by simp
  have "\<forall>e \<in> set ?T. \<not> page_request e"
    using general unfolding T by simp
  then have a: "LoadMore [stashes_w, repo_w] \<notin> set ?T" by fastforce
  have b: "GetChildren [stashes_w, repo_w] \<in> set ?T" by code_simp
  have c: "fst (findStash (findNode example_tree) example_env example_stash None) = Inr None"
    by code_simp
  have d: "LoadMore [tags_w, repo_w] \<in>
     set (snd (findTag (findNode example_tree) example_env example_tag None))"
    by code_simp
  have e: "fst (findTag (findNode example_tree) example_env example_tag None) \<noteq> Inr None"
    by code_simp
  show ?thesis using unset a b c d e by simp
qed

end
